theory Spec2Isabelle
  imports Main "HOL-Library.Word"
begin

unbundle bit_operations_syntax

section \<open>Bytes, Python integers and the struct module\<close>

text \<open>
  A Python \<open>bytes\<close>/\<open>bytearray\<close> value is a list of 8-bit words. Python integers are
  unbounded and are modelled as \<open>int\<close>; lengths and indices, which are never negative,
  are \<open>nat\<close>.
\<close>

type_synonym byte = "8 word"

text \<open>
  \<open>struct.pack('<I', v)\<close>: the four bytes of \<open>v\<close>, least significant first. The
  format \<open>I\<close> accepts only \<open>0 \<le> v < 2 ^ 32\<close>; any other integer raises
  \<open>struct.error\<close>, which is the value \<open>None\<close> here.
\<close>

definition pack_u32 :: "int \<Rightarrow> byte list option" where
  "pack_u32 v =
     (if 0 \<le> v \<and> v < 2 ^ 32
      then Some [word_of_int v, word_of_int (v div 2 ^ 8),
                 word_of_int (v div 2 ^ 16), word_of_int (v div 2 ^ 24)]
      else None)"

text \<open>\<open>struct.pack('<II...I', v1, ..., vn)\<close>: the fields one after the other.\<close>

fun pack_u32s :: "int list \<Rightarrow> byte list option" where
  "pack_u32s [] = Some []"
| "pack_u32s (v # vs) =
     (case pack_u32 v of
        None \<Rightarrow> None
      | Some b \<Rightarrow> (case pack_u32s vs of None \<Rightarrow> None | Some bs \<Rightarrow> Some (b @ bs)))"

text \<open>
  \<open>struct.unpack('<I', buf)[0]\<close>: the buffer must hold exactly four bytes, otherwise
  \<open>struct.error\<close> is raised.
\<close>

fun unpack_u32 :: "byte list \<Rightarrow> int option" where
  "unpack_u32 [b0, b1, b2, b3] =
     Some (uint b0 + uint b1 * 2 ^ 8 + uint b2 * 2 ^ 16 + uint b3 * 2 ^ 24)"
| "unpack_u32 _ = None"

text \<open>The slice \<open>xs[a:b]\<close> for \<open>0 \<le> a \<le> b\<close>; it is cut short at the end of \<open>xs\<close>.\<close>

definition slice :: "'a list \<Rightarrow> nat \<Rightarrow> nat \<Rightarrow> 'a list" where
  "slice xs a b = take (b - a) (drop a xs)"

section \<open>bytes.fromhex\<close>

text \<open>
  \<open>bytes.fromhex(s)\<close> skips ASCII whitespace between bytes and reads every byte as two
  adjacent hexadecimal digits of either case. Any other character, a digit without its
  partner, or whitespace inside a pair raises \<open>ValueError\<close> (\<open>None\<close>).
\<close>

definition is_space :: "char \<Rightarrow> bool" where
  "is_space c = (let n = (of_char c :: nat) in n = 32 \<or> (9 \<le> n \<and> n \<le> 13))"

definition hex_val :: "char \<Rightarrow> nat option" where
  "hex_val c =
     (let n = (of_char c :: nat) in
      if 48 \<le> n \<and> n \<le> 57 then Some (n - 48)
      else if 97 \<le> n \<and> n \<le> 102 then Some (n - 87)
      else if 65 \<le> n \<and> n \<le> 70 then Some (n - 55)
      else None)"

fun fromhex :: "string \<Rightarrow> byte list option" where
  "fromhex [] = Some []"
| "fromhex [c] = (if is_space c then Some [] else None)"
| "fromhex (c # d # cs) =
     (if is_space c then fromhex (d # cs)
      else (case hex_val c of
              None \<Rightarrow> None
            | Some hi \<Rightarrow>
                (case hex_val d of
                   None \<Rightarrow> None
                 | Some lo \<Rightarrow>
                     (case fromhex cs of
                        None \<Rightarrow> None
                      | Some bs \<Rightarrow> Some (of_nat (16 * hi + lo) # bs)))))"

section \<open>hashlib.sha256 and hmac\<close>

text \<open>
  \<open>hashlib.sha256\<close> and \<open>hmac.new(key, msg, hashlib.sha256).digest()\<close> belong to the
  Python standard library. They are written out here after FIPS 180-4 and RFC 2104, on
  32-bit words, so that the digest the signing tool embeds is a concrete list of bytes.
\<close>

type_synonym u32 = "32 word"

definition rotr :: "nat \<Rightarrow> u32 \<Rightarrow> u32" where
  "rotr n x = drop_bit n x OR push_bit (32 - n) x"

definition Ch :: "u32 \<Rightarrow> u32 \<Rightarrow> u32 \<Rightarrow> u32" where
  "Ch x y z = (x AND y) XOR (NOT x AND z)"

definition Maj :: "u32 \<Rightarrow> u32 \<Rightarrow> u32 \<Rightarrow> u32" where
  "Maj x y z = (x AND y) XOR (x AND z) XOR (y AND z)"

definition big_sigma0 :: "u32 \<Rightarrow> u32" where
  "big_sigma0 x = rotr 2 x XOR rotr 13 x XOR rotr 22 x"

definition big_sigma1 :: "u32 \<Rightarrow> u32" where
  "big_sigma1 x = rotr 6 x XOR rotr 11 x XOR rotr 25 x"

definition small_sigma0 :: "u32 \<Rightarrow> u32" where
  "small_sigma0 x = rotr 7 x XOR rotr 18 x XOR drop_bit 3 x"

definition small_sigma1 :: "u32 \<Rightarrow> u32" where
  "small_sigma1 x = rotr 17 x XOR rotr 19 x XOR drop_bit 10 x"

definition sha256_K :: "u32 list" where
  "sha256_K =
    [0x428A2F98, 0x71374491, 0xB5C0FBCF, 0xE9B5DBA5, 0x3956C25B, 0x59F111F1, 0x923F82A4, 0xAB1C5ED5,
     0xD807AA98, 0x12835B01, 0x243185BE, 0x550C7DC3, 0x72BE5D74, 0x80DEB1FE, 0x9BDC06A7, 0xC19BF174,
     0xE49B69C1, 0xEFBE4786, 0x0FC19DC6, 0x240CA1CC, 0x2DE92C6F, 0x4A7484AA, 0x5CB0A9DC, 0x76F988DA,
     0x983E5152, 0xA831C66D, 0xB00327C8, 0xBF597FC7, 0xC6E00BF3, 0xD5A79147, 0x06CA6351, 0x14292967,
     0x27B70A85, 0x2E1B2138, 0x4D2C6DFC, 0x53380D13, 0x650A7354, 0x766A0ABB, 0x81C2C92E, 0x92722C85,
     0xA2BFE8A1, 0xA81A664B, 0xC24B8B70, 0xC76C51A3, 0xD192E819, 0xD6990624, 0xF40E3585, 0x106AA070,
     0x19A4C116, 0x1E376C08, 0x2748774C, 0x34B0BCB5, 0x391C0CB3, 0x4ED8AA4A, 0x5B9CCA4F, 0x682E6FF3,
     0x748F82EE, 0x78A5636F, 0x84C87814, 0x8CC70208, 0x90BEFFFA, 0xA4506CEB, 0xBEF9A3F7, 0xC67178F2]"

definition sha256_H0 :: "u32 list" where
  "sha256_H0 =
    [0x6A09E667, 0xBB67AE85, 0x3C6EF372, 0xA54FF53A, 0x510E527F, 0x9B05688C, 0x1F83D9AB, 0x5BE0CD19]"

text \<open>Big-endian words of a block, and the big-endian bytes of a word.\<close>

fun be_words :: "byte list \<Rightarrow> u32 list" where
  "be_words (a # b # c # d # r) =
     (push_bit 24 (ucast a) OR push_bit 16 (ucast b) OR push_bit 8 (ucast c) OR ucast d) # be_words r"
| "be_words _ = []"

definition be_bytes32 :: "u32 \<Rightarrow> byte list" where
  "be_bytes32 w = [ucast (drop_bit 24 w), ucast (drop_bit 16 w), ucast (drop_bit 8 w), ucast w]"

definition be_bytes64 :: "nat \<Rightarrow> byte list" where
  "be_bytes64 n =
     (let w = (of_nat n :: 64 word) in
      [ucast (drop_bit 56 w), ucast (drop_bit 48 w), ucast (drop_bit 40 w), ucast (drop_bit 32 w),
       ucast (drop_bit 24 w), ucast (drop_bit 16 w), ucast (drop_bit 8 w), ucast w])"

text \<open>
  The message schedule is built newest word first: at every step the head of the list is
  \<open>W(t-1)\<close>, so \<open>W(t-2)\<close>, \<open>W(t-7)\<close>, \<open>W(t-15)\<close> and \<open>W(t-16)\<close> sit at positions
  1, 6, 14 and 15.
\<close>

fun schedule :: "nat \<Rightarrow> u32 list \<Rightarrow> u32 list" where
  "schedule 0 ws = ws"
| "schedule (Suc n) ws =
     schedule n ((small_sigma1 (ws ! 1) + ws ! 6 + small_sigma0 (ws ! 14) + ws ! 15) # ws)"

fun rounds :: "u32 list \<Rightarrow> u32 list \<Rightarrow> u32 list \<Rightarrow> u32 list" where
  "rounds (k # ks) (w # ws) [a, b, c, d, e, f, g, h] =
     (let t1 = h + big_sigma1 e + Ch e f g + k + w;
          t2 = big_sigma0 a + Maj a b c
      in rounds ks ws [t1 + t2, a, b, c, d + t1, e, f, g])"
| "rounds _ _ s = s"

definition compress :: "u32 list \<Rightarrow> byte list \<Rightarrow> u32 list" where
  "compress s block =
     map2 (+) s (rounds sha256_K (rev (schedule 48 (rev (be_words block)))) s)"

definition sha256_pad :: "byte list \<Rightarrow> byte list" where
  "sha256_pad m =
     m @ [0x80] @ replicate ((64 - (length m + 9) mod 64) mod 64) 0 @ be_bytes64 (8 * length m)"

fun sha256_blocks :: "nat \<Rightarrow> u32 list \<Rightarrow> byte list \<Rightarrow> u32 list" where
  "sha256_blocks 0 s m = s"
| "sha256_blocks (Suc n) s m = sha256_blocks n (compress s (take 64 m)) (drop 64 m)"

definition sha256 :: "byte list \<Rightarrow> byte list" where
  "sha256 m =
     (let p = sha256_pad m
      in concat (map be_bytes32 (sha256_blocks (length p div 64) sha256_H0 p)))"

definition hmac_sha256 :: "byte list \<Rightarrow> byte list \<Rightarrow> byte list" where
  "hmac_sha256 key msg =
     (let k0 = (if length key > 64 then sha256 key else key);
          k = k0 @ replicate (64 - length k0) 0
      in sha256 (map (\<lambda>b. b XOR 0x5c) k @ sha256 (map (\<lambda>b. b XOR 0x36) k @ msg)))"

section \<open>sign_firmware.py\<close>

text \<open>
  The files the tool reads and writes: \<open>files\<close> maps a path to the content of the file
  there (\<open>None\<close>: no such file), and \<open>writable\<close> says whether opening a path for
  writing succeeds.
\<close>

record filesystem =
  files :: "string \<rightharpoonup> byte list"
  writable :: "string \<Rightarrow> bool"

text \<open>
  Every way \<open>sign_firmware\<close> ends without writing an image. The first five print a
  diagnostic and call \<open>sys.exit(1)\<close>; the constructor carries the numbers printed:
  \<open>PayloadTooLarge current maximum overflow\<close> and \<open>InvalidKeyLength bits hex_chars\<close>.
  \<open>StructError\<close> is the uncaught \<open>struct.error\<close> of a field outside 32 bits.
\<close>

datatype error =
    FileNotFound string
  | PayloadTooLarge nat nat nat
  | InvalidKeyLength nat nat
  | MalformedKeyEncoding
  | IOFailure
  | StructError

definition header_offset :: nat where
  "header_offset = 0xFFC0"

text \<open>Lines 55-57: the firmware is extended with zero bytes up to the header offset.\<close>

definition pad_firmware :: "byte list \<Rightarrow> byte list" where
  "pad_firmware firmware_data =
     firmware_data @ replicate (header_offset - length firmware_data) 0"

text \<open>
  Lines 60-82: the header as it stands before signing, from the version, the length of
  the padded firmware and the timestamp. It has eight words and no signature field yet.
\<close>

definition pack_header :: "int \<Rightarrow> int \<Rightarrow> int \<Rightarrow> byte list option" where
  "pack_header version len timestamp =
     (let magic = 0xDEADBEEF;
          entry_point = 0x00010000
      in case pack_u32s [magic, version, len, entry_point, timestamp, 0] of
           None \<Rightarrow> None
         | Some header \<Rightarrow>
             (case pack_u32s [0, 0] of
                None \<Rightarrow> None
              | Some reserved \<Rightarrow> Some (header @ reserved)))"

text \<open>
  Lines 110-114: for \<open>i\<close> in \<open>range(8)\<close>, unpack the \<open>i\<close>-th group of four digest
  bytes as a little-endian word, record it and append its packing to the header. The
  state is the pair of \<open>signature_words\<close> and \<open>header\<close>.
\<close>

fun append_signature :: "byte list \<Rightarrow> nat list \<Rightarrow> int list \<times> byte list \<Rightarrow> (int list \<times> byte list) option" where
  "append_signature mac [] st = Some st"
| "append_signature mac (i # is) (signature_words, header) =
     (case unpack_u32 (slice mac (i * 4) ((i + 1) * 4)) of
        None \<Rightarrow> None
      | Some word \<Rightarrow>
          (case pack_u32 word of
             None \<Rightarrow> None
           | Some b \<Rightarrow> append_signature mac is (signature_words @ [word], header @ b)))"

text \<open>
  Line 99: the bytes handed to the MAC, \<open>data_to_sign = firmware_data + header\<close>, with
  \<open>firmware_data\<close> already padded and \<open>header\<close> as packed by lines 75-82.
\<close>

definition data_to_sign :: "byte list \<Rightarrow> byte list \<Rightarrow> byte list" where
  "data_to_sign firmware_data header = firmware_data @ header"

text \<open>
  \<open>sign_firmware(firmware_path, key_hex, version, output_path)\<close>, run on the file system
  \<open>fs\<close> at clock reading \<open>now\<close> (the value of \<open>int(datetime.now().timestamp())\<close>).
  The result is the file system after the run, or the error that ended it. The order of
  the checks is the order of the source: the file, the size, the header fields, the key.
\<close>

definition sign_firmware ::
    "filesystem \<Rightarrow> int \<Rightarrow> string \<Rightarrow> string \<Rightarrow> int \<Rightarrow> string \<Rightarrow> error + filesystem" where
  "sign_firmware fs now firmware_path key_hex version output_path =
     (case files fs firmware_path of
        None \<Rightarrow> Inl (FileNotFound firmware_path)
      | Some firmware_data \<Rightarrow>
          if length firmware_data > header_offset
          then Inl (PayloadTooLarge (length firmware_data) header_offset
                      (length firmware_data - header_offset))
          else
            let firmware_data = pad_firmware firmware_data;
                timestamp = now
            in case pack_header version (int (length firmware_data)) timestamp of
                 None \<Rightarrow> Inl StructError
               | Some header \<Rightarrow>
                   (case fromhex key_hex of
                      None \<Rightarrow> Inl MalformedKeyEncoding
                    | Some key \<Rightarrow>
                        if length key \<noteq> 32
                        then Inl (InvalidKeyLength (length key * 8) (length key_hex))
                        else
                          let mac = hmac_sha256 key (data_to_sign firmware_data header)
                          in case append_signature mac [0..<8] ([], header) of
                               None \<Rightarrow> Inl StructError
                             | Some (signature_words, header) \<Rightarrow>
                                 let signed_firmware = firmware_data @ header
                                 in if writable fs output_path
                                    then Inr (fs\<lparr>files := (files fs)(output_path \<mapsto> signed_firmware)\<rparr>)
                                    else Inl IOFailure))"

text \<open>
  What remains of a run for an observer of \<open>output_path\<close>: the bytes of the image
  written there, or nothing when the run ended in an error.
\<close>

definition written_image :: "error + filesystem \<Rightarrow> string \<Rightarrow> byte list option" where
  "written_image r output_path = (case r of Inl e \<Rightarrow> None | Inr fs' \<Rightarrow> files fs' output_path)"

text \<open>
  The same run with its trace: the calls, in order, that read the firmware file, compute
  the MAC (with the key and the bytes it is given) and write the output file. A call that
  fails leaves no event. The branches are those of \<open>sign_firmware\<close>, one for one;
  printing is part of neither.
\<close>

datatype event =
    FileRead string
  | MacComputed "byte list" "byte list"
  | FileWritten string

definition sign_firmware_trace ::
    "filesystem \<Rightarrow> int \<Rightarrow> string \<Rightarrow> string \<Rightarrow> int \<Rightarrow> string
       \<Rightarrow> event list \<times> (error + filesystem)" where
  "sign_firmware_trace fs now firmware_path key_hex version output_path =
     (case files fs firmware_path of
        None \<Rightarrow> ([], Inl (FileNotFound firmware_path))
      | Some firmware_data \<Rightarrow>
          if length firmware_data > header_offset
          then ([FileRead firmware_path],
                Inl (PayloadTooLarge (length firmware_data) header_offset
                       (length firmware_data - header_offset)))
          else
            let firmware_data = pad_firmware firmware_data;
                timestamp = now
            in case pack_header version (int (length firmware_data)) timestamp of
                 None \<Rightarrow> ([FileRead firmware_path], Inl StructError)
               | Some header \<Rightarrow>
                   (case fromhex key_hex of
                      None \<Rightarrow> ([FileRead firmware_path], Inl MalformedKeyEncoding)
                    | Some key \<Rightarrow>
                        if length key \<noteq> 32
                        then ([FileRead firmware_path],
                              Inl (InvalidKeyLength (length key * 8) (length key_hex)))
                        else
                          let to_sign = data_to_sign firmware_data header;
                              mac = hmac_sha256 key to_sign
                          in case append_signature mac [0..<8] ([], header) of
                               None \<Rightarrow>
                                 ([FileRead firmware_path, MacComputed key to_sign], Inl StructError)
                             | Some (signature_words, header) \<Rightarrow>
                                 let signed_firmware = firmware_data @ header
                                 in if writable fs output_path
                                    then ([FileRead firmware_path, MacComputed key to_sign,
                                           FileWritten output_path],
                                          Inr (fs\<lparr>files := (files fs)(output_path \<mapsto> signed_firmware)\<rparr>))
                                    else ([FileRead firmware_path, MacComputed key to_sign],
                                          Inl IOFailure)))"

section \<open>The image layout, as the specification words it\<close>

text \<open>
  The definitions of this section do not come from the source. They say what a
  little-endian 32-bit field is and which fields the header has, so that the image the
  source writes can be compared with the layout of the specification.
\<close>

text \<open>The little-endian value of a group of bytes.\<close>

fun le_value :: "byte list \<Rightarrow> int" where
  "le_value [] = 0"
| "le_value (b # bs) = uint b + 256 * le_value bs"

text \<open>The four little-endian bytes of a 32-bit field.\<close>

definition le32 :: "int \<Rightarrow> byte list" where
  "le32 v = [word_of_int v, word_of_int (v div 2 ^ 8),
             word_of_int (v div 2 ^ 16), word_of_int (v div 2 ^ 24)]"

text \<open>A value that fits a 32-bit unsigned field.\<close>

definition in_u32 :: "int \<Rightarrow> bool" where
  "in_u32 v = (0 \<le> v \<and> v < 2 ^ 32)"

text \<open>The 32-bit field read at byte offset \<open>off\<close> of a buffer.\<close>

definition u32_at :: "byte list \<Rightarrow> nat \<Rightarrow> int" where
  "u32_at buf off = le_value (slice buf off (off + 4))"

text \<open>
  The eight header words that precede the signature: magic, version, length,
  entry point, timestamp and three reserved words.
\<close>

definition header_words :: "int \<Rightarrow> int \<Rightarrow> int list" where
  "header_words version timestamp =
     [0xDEADBEEF, version, int header_offset, 0x00010000, timestamp, 0, 0, 0]"

definition unsigned_header :: "int \<Rightarrow> int \<Rightarrow> byte list" where
  "unsigned_header version timestamp = concat (map le32 (header_words version timestamp))"

text \<open>The eight little-endian words of a 32-byte digest, in digest order.\<close>

definition digest_words :: "byte list \<Rightarrow> int list" where
  "digest_words mac = map (\<lambda>i. le_value (slice mac (4 * i) (4 * i + 4))) [0..<8]"

text \<open>
  The image in closed form: padded payload, the eight header words, and the MAC of
  these two parts.
\<close>

definition signed_image :: "byte list \<Rightarrow> int \<Rightarrow> int \<Rightarrow> byte list \<Rightarrow> byte list" where
  "signed_image payload version timestamp key =
     pad_firmware payload @ unsigned_header version timestamp @
     hmac_sha256 key (pad_firmware payload @ unsigned_header version timestamp)"

text \<open>
  Modelled from the spec: the boot verifier, which is not part of the sources. Section 6
  of the specification gives its check: split the image into the \<open>PAYLOAD_MAX\<close> bytes
  of payload and the 64-byte header, zero the signature field in a copy of the header,
  recompute \<open>HMAC_SHA256(key, payload @ header_with_zeroed_signature)\<close>, and accept when
  the magic word is right and the recomputed MAC equals the embedded signature word for
  word.
\<close>

definition boot_verify :: "byte list \<Rightarrow> byte list \<Rightarrow> bool" where
  "boot_verify key img =
     (let payload = take header_offset img;
          header = drop header_offset img;
          header_zeroed = take 32 header @ replicate 32 0;
          recomputed = hmac_sha256 key (payload @ header_zeroed)
      in u32_at header 0 = 0xDEADBEEF \<and>
         digest_words recomputed = map (\<lambda>i. u32_at header (32 + 4 * i)) [0..<8])"

section \<open>bin2hex.py and make_imem.py\<close>

text \<open>
  \<open>format(n, '08x')\<close>: the lower-case hexadecimal digits of \<open>n\<close>, filled with zeros on
  the left up to eight characters; for a negative \<open>n\<close> the sign comes first and counts
  as one of the eight. \<open>hex_str\<close> gives the digits of a non-negative integer.
\<close>

definition hex_digit :: "nat \<Rightarrow> char" where
  "hex_digit d = ''0123456789abcdef'' ! d"

fun hex_str :: "int \<Rightarrow> string" where
  "hex_str n =
     (if n < 16 then [hex_digit (nat n)]
      else hex_str (n div 16) @ [hex_digit (nat (n mod 16))])"

declare hex_str.simps [simp del]

definition zero_fill :: "nat \<Rightarrow> string \<Rightarrow> string" where
  "zero_fill width s = replicate (width - length s) (CHR ''0'') @ s"

definition fmt_08x :: "int \<Rightarrow> string" where
  "fmt_08x n =
     (if n < 0 then CHR ''-'' # zero_fill 7 (hex_str (- n)) else zero_fill 8 (hex_str n))"

text \<open>\<open>str(n)\<close> for an index \<open>n\<close>: its decimal digits.\<close>

definition dec_digit :: "nat \<Rightarrow> char" where
  "dec_digit d = ''0123456789'' ! d"

fun dec_str :: "nat \<Rightarrow> string" where
  "dec_str n = (if n < 10 then [dec_digit n] else dec_str (n div 10) @ [dec_digit (n mod 10)])"

declare dec_str.simps [simp del]

text \<open>\<open>range(0, n, 4)\<close>.\<close>

definition range_step4 :: "nat \<Rightarrow> nat list" where
  "range_step4 n = map (\<lambda>k. 4 * k) [0..<(n + 3) div 4]"

text \<open>
  bin2hex, lines 32-35: \<open>word[0] | (word[1] << 8) | (word[2] << 16) | (word[3] << 24)\<close>
  on Python integers. Indexing a slice of fewer than four bytes raises \<open>IndexError\<close>
  (\<open>None\<close>); bytes beyond the fourth are not read.
\<close>

fun word_val :: "byte list \<Rightarrow> int option" where
  "word_val (b0 # b1 # b2 # b3 # r) =
     Some (uint b0 OR push_bit 8 (uint b1) OR push_bit 16 (uint b2) OR push_bit 24 (uint b3))"
| "word_val _ = None"

text \<open>
  bin2hex, lines 30-36: the loop over \<open>range(0, len(data), 4)\<close>. The result is the list
  of lines written; each is followed by a newline in the file.
\<close>

fun write_words :: "byte list \<Rightarrow> int \<Rightarrow> nat list \<Rightarrow> string list option" where
  "write_words data num_words [] = Some []"
| "write_words data num_words (i # is) =
     (if int (i div 4) < num_words
      then (case word_val (slice data i (i + 4)) of
              None \<Rightarrow> None
            | Some v \<Rightarrow>
                (case write_words data num_words is of
                   None \<Rightarrow> None
                 | Some ls \<Rightarrow> Some (fmt_08x v # ls)))
      else write_words data num_words is)"

text \<open>
  \<open>bin2hex(bin_file, hex_file, num_words)\<close> as a function from the content of
  \<open>bin_file\<close> and the optional \<open>num_words\<close> (any Python integer) to the lines written
  to \<open>hex_file\<close>.
\<close>

definition bin2hex :: "byte list \<Rightarrow> int option \<Rightarrow> string list option" where
  "bin2hex file_data num_words_arg =
     (let data = (if length file_data mod 4 \<noteq> 0
                  then file_data @ replicate (4 - length file_data mod 4) 0
                  else file_data);
          actual_words = length data div 4;
          num_words = (case num_words_arg of None \<Rightarrow> int actual_words | Some n \<Rightarrow> n)
      in case write_words data num_words (range_step4 (length data)) of
           None \<Rightarrow> None
         | Some ls \<Rightarrow> Some (ls @ map (\<lambda>i. ''00000000'') [actual_words..<nat num_words]))"

text \<open>\<open>int.from_bytes(w, byteorder='little')\<close>.\<close>

fun from_bytes_little :: "byte list \<Rightarrow> int" where
  "from_bytes_little [] = 0"
| "from_bytes_little (b # bs) = uint b + 256 * from_bytes_little bs"

text \<open>The statement printed for word \<open>i\<close> with value \<open>val\<close> (make_imem, line 9).\<close>

definition memory_line :: "nat \<Rightarrow> int \<Rightarrow> string" where
  "memory_line i val =
     ''    memory['' @ dec_str i @ ''] = 32'' @ [CHR 0x27] @ ''h'' @ fmt_08x val @ '';''"

text \<open>make_imem.py, from the content of the input file to the lines printed.\<close>

definition make_imem :: "byte list \<Rightarrow> string list" where
  "make_imem b =
     map (\<lambda>i. let w = slice b i (i + 4);
                  w = (if length w < 4 then w @ replicate (4 - length w) 0 else w);
                  val = from_bytes_little w
              in memory_line (i div 4) val)
         (range_step4 (length b))"

text \<open>
  The words of the conversion tools' contract: the buffer padded with zeros to a multiple
  of four bytes, and the little-endian value of its \<open>i\<close>-th group of four bytes.
\<close>

definition pad4 :: "byte list \<Rightarrow> byte list" where
  "pad4 buf = buf @ replicate ((4 - length buf mod 4) mod 4) 0"

definition le_word :: "byte list \<Rightarrow> nat \<Rightarrow> int" where
  "le_word buf i =
     uint (buf ! (4 * i)) + 2 ^ 8 * uint (buf ! (4 * i + 1)) +
     2 ^ 16 * uint (buf ! (4 * i + 2)) + 2 ^ 24 * uint (buf ! (4 * i + 3))"

section \<open>Facts about the building blocks\<close>

subsection \<open>The digest has 32 bytes\<close>

lemma length_rounds: "length s = 8 \<Longrightarrow> length (rounds ks ws s) = 8"
  by (induction ks ws s rule: rounds.induct) (simp_all add: Let_def)

lemma length_compress: "length s = 8 \<Longrightarrow> length (compress s block) = 8"
  by (simp add: compress_def length_rounds)

lemma length_sha256_blocks: "length s = 8 \<Longrightarrow> length (sha256_blocks n s m) = 8"
  by (induction n arbitrary: s m) (simp_all add: length_compress)

lemma length_concat_be_bytes32: "length (concat (map be_bytes32 ws)) = 4 * length ws"
  by (induction ws) (simp_all add: be_bytes32_def)

lemma length_sha256: "length (sha256 m) = 32"
  by (simp add: sha256_def Let_def length_concat_be_bytes32 length_sha256_blocks sha256_H0_def)

lemma length_hmac_sha256: "length (hmac_sha256 key msg) = 32"
  by (simp add: hmac_sha256_def Let_def length_sha256)

subsection \<open>Packing and unpacking a word\<close>

lemma byte_of_int_uint:
  fixes b :: byte
  assumes "k mod 256 = uint b"
  shows "word_of_int k = b"
proof -
  have "uint (word_of_int k :: byte) = uint b"
    using assms by (simp add: uint_word_of_int take_bit_eq_mod)
  then show ?thesis by (simp add: word_uint_eq_iff)
qed

lemma split_low_byte:
  fixes a r :: int
  assumes "0 \<le> a" "a < 256"
  shows "(a + r * 256) mod 256 = a" and "(a + r * 256) div 256 = r"
  using assms by simp_all

lemma pack_unpack_u32:
  assumes "unpack_u32 [b0, b1, b2, b3] = Some w"
  shows "pack_u32 w = Some [b0, b1, b2, b3]"
proof -
  define a b c d where "a = uint b0" and "b = uint b1" and "c = uint b2" and "d = uint b3"
  have bnd: "0 \<le> a" "a < 256" "0 \<le> b" "b < 256" "0 \<le> c" "c < 256" "0 \<le> d" "d < 256"
    using uint_lt2p [of b0] uint_lt2p [of b1] uint_lt2p [of b2] uint_lt2p [of b3]
    by (simp_all add: a_def b_def c_def d_def)
  define w1 w2 where "w1 = b + (c + d * 256) * 256" and "w2 = c + d * 256"
  have w: "w = a + w1 * 256"
    using assms by (simp add: a_def b_def c_def d_def w1_def)
  have rng: "0 \<le> w" "w < 2 ^ 32" using bnd by (simp_all add: w w1_def)
  have m0: "w mod 256 = a" and d0: "w div 256 = w1"
    unfolding w using bnd by (simp_all only: split_low_byte)
  have m1: "w1 mod 256 = b" and d1: "w1 div 256 = w2"
    unfolding w1_def w2_def using bnd by (simp_all only: split_low_byte)
  have m2: "w2 mod 256 = c" and d2: "w2 div 256 = d"
    unfolding w2_def using bnd by (simp_all only: split_low_byte)
  have e16: "w div 65536 = w2"
  proof -
    have "w div (256 * 256) = (w div 256) div 256" by (rule zdiv_zmult2_eq) simp
    then show ?thesis by (simp add: d0 d1)
  qed
  have e24: "w div 16777216 = d"
  proof -
    have "w div (65536 * 256) = (w div 65536) div 256" by (rule zdiv_zmult2_eq) simp
    then show ?thesis using e16 by (simp add: d2)
  qed
  have "word_of_int w = b0" by (rule byte_of_int_uint) (simp add: m0 a_def)
  moreover have "word_of_int (w div 2 ^ 8) = b1"
    by (rule byte_of_int_uint) (simp add: d0 m1 b_def)
  moreover have "word_of_int (w div 2 ^ 16) = b2"
    by (rule byte_of_int_uint) (simp add: e16 m2 c_def)
  moreover have "word_of_int (w div 2 ^ 24) = b3"
  proof (rule byte_of_int_uint)
    have "d mod 256 = d" using bnd by simp
    then show "w div 2 ^ 24 mod 256 = uint b3" by (simp add: e24 d_def)
  qed
  ultimately show ?thesis
    using rng by (simp add: pack_u32_def)
qed

lemma list_of_length_4:
  assumes "length xs = 4"
  obtains b0 b1 b2 b3 where "xs = [b0, b1, b2, b3]"
  using assms by (auto simp: length_Suc_conv numeral_eq_Suc)

lemma unpack_u32_le_value: "length g = 4 \<Longrightarrow> unpack_u32 g = Some (le_value g)"
  by (erule list_of_length_4) simp

lemma pack_group:
  assumes "length g = 4"
  shows "pack_u32 (le_value g) = Some g"
proof -
  from assms obtain b0 b1 b2 b3 where g: "g = [b0, b1, b2, b3]" by (rule list_of_length_4)
  have "unpack_u32 g = Some (le_value g)" by (rule unpack_u32_le_value [OF assms])
  then show ?thesis unfolding g by (rule pack_unpack_u32)
qed

lemma pack_u32_le32: "in_u32 v \<Longrightarrow> pack_u32 v = Some (le32 v)"
  by (simp add: pack_u32_def le32_def in_u32_def)

subsection \<open>Slices\<close>

lemma slice_append_step:
  assumes "a \<le> b" "b \<le> c"
  shows "slice xs a b @ slice xs b c = slice xs a c"
proof -
  have "take (b - a) (drop a xs) @ take (c - b) (drop (b - a) (drop a xs))
          = take ((b - a) + (c - b)) (drop a xs)"
    by (simp only: take_add)
  then show ?thesis using assms by (simp add: slice_def)
qed

lemma length_slice: "b \<le> length xs \<Longrightarrow> length (slice xs a b) = b - a"
  by (simp add: slice_def)

subsection \<open>The signature loop\<close>

lemma append_signature_run:
  assumes "4 * n \<le> length mac"
  shows "k \<le> n \<Longrightarrow>
    append_signature mac [k..<n] (ws, h) =
      Some (ws @ map (\<lambda>i. le_value (slice mac (4 * i) (4 * i + 4))) [k..<n],
            h @ slice mac (4 * k) (4 * n))"
proof (induction "n - k" arbitrary: k ws h)
  case 0
  then show ?case by (simp add: slice_def)
next
  case (Suc m)
  then have kn: "k < n" and m: "m = n - Suc k" by simp_all
  let ?g = "slice mac (4 * k) (4 * k + 4)"
  have len: "length ?g = 4"
    using kn assms by (simp add: length_slice)
  have step: "append_signature mac [Suc k..<n] (ws @ [le_value ?g], h @ ?g)
       = Some ((ws @ [le_value ?g]) @ map (\<lambda>i. le_value (slice mac (4 * i) (4 * i + 4))) [Suc k..<n],
               (h @ ?g) @ slice mac (4 * Suc k) (4 * n))"
    using Suc.hyps(1) [OF m] kn by simp
  have join: "?g @ slice mac (4 * Suc k) (4 * n) = slice mac (4 * k) (4 * n)"
  proof -
    have s: "4 * Suc k = 4 * k + 4" by simp
    show ?thesis unfolding s by (rule slice_append_step) (use kn in simp_all)
  qed
  have idx: "slice mac (k * 4) ((k + 1) * 4) = ?g"
    by (simp add: mult.commute add.commute)
  have "append_signature mac (k # [Suc k..<n]) (ws, h) =
          append_signature mac [Suc k..<n] (ws @ [le_value ?g], h @ ?g)"
    by (simp only: append_signature.simps idx unpack_u32_le_value [OF len] pack_group [OF len]
        option.case)
  then show ?case
    using step join by (simp add: upt_conv_Cons [OF kn])
qed

lemma append_signature_mac:
  assumes "length mac = 32"
  shows "append_signature mac [0..<8] ([], h) = Some (digest_words mac, h @ mac)"
proof -
  have "slice mac (4 * 0) (4 * 8) = mac" using assms by (simp add: slice_def)
  then show ?thesis
    using append_signature_run [of 8 mac 0 "[]" h] assms by (simp add: digest_words_def)
qed

subsection \<open>A successful run\<close>

lemma in_u32_consts:
  "in_u32 0xDEADBEEF" "in_u32 0x00010000" "in_u32 0" "in_u32 (int header_offset)"
  by (simp_all add: in_u32_def header_offset_def)

lemma pack_header_ok:
  assumes "in_u32 version" "in_u32 timestamp"
  shows "pack_header version (int header_offset) timestamp = Some (unsigned_header version timestamp)"
  using assms in_u32_consts
  by (simp add: pack_header_def pack_u32_le32 unsigned_header_def header_words_def)

lemma length_pad_firmware:
  "length payload \<le> header_offset \<Longrightarrow> length (pad_firmware payload) = header_offset"
  by (simp add: pad_firmware_def)

lemma sign_firmware_success:
  assumes "files fs firmware_path = Some payload"
    and "length payload \<le> header_offset"
    and "in_u32 version" and "in_u32 now"
    and "fromhex key_hex = Some key" and "length key = 32"
    and "writable fs output_path"
  shows "sign_firmware fs now firmware_path key_hex version output_path =
           Inr (fs\<lparr>files := (files fs)(output_path \<mapsto> signed_image payload version now key)\<rparr>)"
  using assms
  by (simp add: sign_firmware_def Let_def length_pad_firmware pack_header_ok
      data_to_sign_def append_signature_mac length_hmac_sha256 signed_image_def)

lemma length_le32: "length (le32 v) = 4"
  by (simp add: le32_def)

lemma length_unsigned_header: "length (unsigned_header version timestamp) = 32"
  by (simp add: unsigned_header_def header_words_def length_le32)

lemma length_signed_image:
  "length payload \<le> header_offset \<Longrightarrow>
   length (signed_image payload version timestamp key) = header_offset + 64"
  by (simp add: signed_image_def length_pad_firmware length_unsigned_header length_hmac_sha256)

lemma fromhex_zero_key:
  "fromhex ''0000000000000000000000000000000000000000000000000000000000000000'' = Some (replicate 32 0)"
  by (simp add: hex_val_def is_space_def numeral_eq_Suc)

subsection \<open>Runs that end in an error\<close>

lemma sign_firmware_too_large:
  assumes "files fs firmware_path = Some payload" and "header_offset < length payload"
  shows "sign_firmware fs now firmware_path key_hex version output_path =
           Inl (PayloadTooLarge (length payload) header_offset (length payload - header_offset))"
  using assms by (simp add: sign_firmware_def)

lemma sign_firmware_bad_key_length:
  assumes "files fs firmware_path = Some payload"
    and "length payload \<le> header_offset"
    and "in_u32 version" and "in_u32 now"
    and "fromhex key_hex = Some key" and "length key \<noteq> 32"
  shows "sign_firmware fs now firmware_path key_hex version output_path =
           Inl (InvalidKeyLength (length key * 8) (length key_hex))"
  using assms by (simp add: sign_firmware_def Let_def length_pad_firmware pack_header_ok)

lemma sign_firmware_bad_key_encoding:
  assumes "files fs firmware_path = Some payload"
    and "length payload \<le> header_offset"
    and "in_u32 version" and "in_u32 now"
    and "fromhex key_hex = None"
  shows "sign_firmware fs now firmware_path key_hex version output_path = Inl MalformedKeyEncoding"
  using assms by (simp add: sign_firmware_def Let_def length_pad_firmware pack_header_ok)

subsection \<open>The trace of a run\<close>

lemma sign_firmware_trace_result:
  "snd (sign_firmware_trace fs now firmware_path key_hex version output_path) =
     sign_firmware fs now firmware_path key_hex version output_path"
  by (simp add: sign_firmware_trace_def sign_firmware_def Let_def
      split: option.splits prod.splits)

lemma sign_firmware_trace_bad_key_length:
  assumes "files fs firmware_path = Some payload"
    and "length payload \<le> header_offset"
    and "in_u32 version" and "in_u32 now"
    and "fromhex key_hex = Some key" and "length key \<noteq> 32"
  shows "sign_firmware_trace fs now firmware_path key_hex version output_path =
           ([FileRead firmware_path], Inl (InvalidKeyLength (length key * 8) (length key_hex)))"
  using assms by (simp add: sign_firmware_trace_def Let_def length_pad_firmware pack_header_ok)

lemma sign_firmware_trace_bad_key_encoding:
  assumes "files fs firmware_path = Some payload"
    and "length payload \<le> header_offset"
    and "in_u32 version" and "in_u32 now"
    and "fromhex key_hex = None"
  shows "sign_firmware_trace fs now firmware_path key_hex version output_path =
           ([FileRead firmware_path], Inl MalformedKeyEncoding)"
  using assms by (simp add: sign_firmware_trace_def Let_def length_pad_firmware pack_header_ok)

lemma sign_firmware_trace_success:
  assumes "files fs firmware_path = Some payload"
    and "length payload \<le> header_offset"
    and "in_u32 version" and "in_u32 now"
    and "fromhex key_hex = Some key" and "length key = 32"
    and "writable fs output_path"
  shows "sign_firmware_trace fs now firmware_path key_hex version output_path =
           ([FileRead firmware_path,
             MacComputed key (data_to_sign (pad_firmware payload) (unsigned_header version now)),
             FileWritten output_path],
            Inr (fs\<lparr>files := (files fs)(output_path \<mapsto> signed_image payload version now key)\<rparr>))"
  using assms
  by (simp add: sign_firmware_trace_def Let_def length_pad_firmware pack_header_ok
      append_signature_mac length_hmac_sha256 signed_image_def data_to_sign_def)

subsection \<open>Reading the fields of the image\<close>

lemma uint_byte_of_int: "uint (word_of_int k :: byte) = k mod 256"
  by (simp add: uint_word_of_int take_bit_eq_mod)

lemma le_value_le32:
  assumes "in_u32 v"
  shows "le_value (le32 v) = v"
proof -
  have d16: "v div 65536 = (v div 256) div 256"
    using zdiv_zmult2_eq [of 256 v 256] by simp
  have d24: "v div 16777216 = (v div 65536) div 256"
    using zdiv_zmult2_eq [of 256 v 65536] by simp
  have top: "(v div 16777216) mod 256 = v div 16777216"
  proof -
    have "v = 16777216 * (v div 16777216) + v mod 16777216" by simp
    moreover have "0 \<le> v mod 16777216" by simp
    moreover have "v < 4294967296" using assms by (simp add: in_u32_def)
    ultimately have "v div 16777216 < 256" by linarith
    moreover have "0 \<le> v div 16777216"
      using assms by (simp add: in_u32_def pos_imp_zdiv_nonneg_iff)
    ultimately show ?thesis by simp
  qed
  have s0: "v = v mod 256 + 256 * (v div 256)" by simp
  have s1: "v div 256 = (v div 256) mod 256 + 256 * (v div 65536)" by (simp add: d16)
  have s2: "v div 65536 = (v div 65536) mod 256 + 256 * (v div 16777216)" by (simp add: d24)
  have "le_value (le32 v) =
          v mod 256 + 256 * ((v div 256) mod 256 + 256 * ((v div 65536) mod 256 + 256 * (v div 16777216)))"
    by (simp add: le32_def uint_byte_of_int top)
  also have "\<dots> = v mod 256 + 256 * ((v div 256) mod 256 + 256 * (v div 65536))"
    using s2 by simp
  also have "\<dots> = v mod 256 + 256 * (v div 256)"
    using s1 by simp
  also have "\<dots> = v" using s0 by simp
  finally show ?thesis .
qed

lemma slice_after_prefix:
  "slice (pre @ xs) (length pre + a) (length pre + b) = slice xs a b"
  by (simp add: slice_def)

lemma slice_concat_le32:
  "k < length ws \<Longrightarrow> slice (concat (map le32 ws) @ post) (4 * k) (4 * k + 4) = le32 (ws ! k)"
proof (induction ws arbitrary: k)
  case Nil
  then show ?case by simp
next
  case (Cons w ws)
  show ?case
  proof (cases k)
    case 0
    then show ?thesis by (simp add: slice_def length_le32)
  next
    case (Suc j)
    then have j: "j < length ws" using Cons.prems by simp
    have "slice (le32 w @ (concat (map le32 ws) @ post)) (length (le32 w) + 4 * j) (length (le32 w) + (4 * j + 4))
            = slice (concat (map le32 ws) @ post) (4 * j) (4 * j + 4)"
      by (rule slice_after_prefix)
    then show ?thesis using Cons.IH [OF j] Suc by (simp add: length_le32 add.commute)
  qed
qed

lemma u32_at_header_word:
  assumes "length pre = off" and "k < length ws" and "in_u32 (ws ! k)"
  shows "u32_at (pre @ concat (map le32 ws) @ post) (off + 4 * k) = ws ! k"
proof -
  have "slice (pre @ (concat (map le32 ws) @ post)) (length pre + 4 * k) (length pre + (4 * k + 4))
          = slice (concat (map le32 ws) @ post) (4 * k) (4 * k + 4)"
    by (rule slice_after_prefix)
  then have "slice (pre @ concat (map le32 ws) @ post) (off + 4 * k) (off + 4 * k + 4) = le32 (ws ! k)"
    using assms(1,2) by (simp add: slice_concat_le32 add.assoc)
  then show ?thesis using assms(3) by (simp add: u32_at_def le_value_le32)
qed

lemma u32_at_after_prefix:
  assumes "length pre = off"
  shows "u32_at (pre @ xs) (off + a) = u32_at xs a"
proof -
  have "slice (pre @ xs) (length pre + a) (length pre + (a + 4)) = slice xs a (a + 4)"
    by (rule slice_after_prefix)
  then show ?thesis using assms by (simp add: u32_at_def add.assoc)
qed

lemma signed_image_parts:
  assumes "length payload \<le> header_offset"
  shows "take header_offset (signed_image payload version now key) = pad_firmware payload"
    and "take (header_offset + 32) (signed_image payload version now key)
           = pad_firmware payload @ unsigned_header version now"
    and "drop (header_offset + 32) (signed_image payload version now key)
           = hmac_sha256 key (pad_firmware payload @ unsigned_header version now)"
  using assms
  by (simp_all add: signed_image_def length_pad_firmware length_unsigned_header)

lemma in_u32_header_words:
  assumes "in_u32 version" "in_u32 now" "k < 8"
  shows "in_u32 (header_words version now ! k)"
proof -
  have "k \<in> {0, 1, 2, 3, 4, 5, 6, 7}" using assms(3) by auto
  then show ?thesis
    using assms(1,2) in_u32_consts by (auto simp: header_words_def)
qed

lemma signed_image_header_word:
  assumes "length payload \<le> header_offset" "in_u32 version" "in_u32 now" "k < 8"
  shows "u32_at (signed_image payload version now key) (header_offset + 4 * k)
           = header_words version now ! k"
proof -
  have len: "length (header_words version now) = 8" by (simp add: header_words_def)
  show ?thesis
    unfolding signed_image_def unsigned_header_def
    by (rule u32_at_header_word)
       (use assms len in \<open>simp_all add: length_pad_firmware in_u32_header_words\<close>)
qed

lemma signed_image_signature_word:
  assumes "length payload \<le> header_offset" "i < 8"
  shows "u32_at (signed_image payload version now key) (header_offset + 32 + 4 * i)
           = digest_words (hmac_sha256 key (pad_firmware payload @ unsigned_header version now)) ! i"
proof -
  let ?pre = "pad_firmware payload @ unsigned_header version now"
  have "u32_at (?pre @ hmac_sha256 key ?pre) (header_offset + 32 + 4 * i)
          = u32_at (hmac_sha256 key ?pre) (4 * i)"
    by (rule u32_at_after_prefix)
       (use assms in \<open>simp add: length_pad_firmware length_unsigned_header\<close>)
  moreover have "digest_words (hmac_sha256 key ?pre) ! i = u32_at (hmac_sha256 key ?pre) (4 * i)"
    using assms(2) by (simp add: digest_words_def u32_at_def)
  ultimately show ?thesis by (simp add: signed_image_def)
qed

lemma pack_digest_words:
  assumes "length mac = 32"
  shows "map pack_u32 (digest_words mac) = map (\<lambda>i. Some (slice mac (4 * i) (4 * i + 4))) [0..<8]"
proof -
  have "pack_u32 (le_value (slice mac (4 * i) (4 * i + 4))) = Some (slice mac (4 * i) (4 * i + 4))"
    if "i < 8" for i
    by (rule pack_group) (use that assms in \<open>simp add: length_slice\<close>)
  then show ?thesis by (simp add: digest_words_def)
qed

subsection \<open>Keys used as examples\<close>

lemma fromhex_short_key:
  "fromhex ''00000000000000000000000000000000000000000000000000000000000000'' = Some (replicate 31 0)"
  by (simp add: hex_val_def is_space_def numeral_eq_Suc)

lemma fromhex_long_key:
  "fromhex ''000000000000000000000000000000000000000000000000000000000000000000'' = Some (replicate 33 0)"
  by (simp add: hex_val_def is_space_def numeral_eq_Suc)

lemma fromhex_not_hex: "fromhex ''0g'' = None"
  by (simp add: hex_val_def is_space_def)

lemma fromhex_lower_key:
  "fromhex ''abababababababababababababababababababababababababababababababab'' = Some (replicate 32 0xAB)"
  by (simp add: hex_val_def is_space_def numeral_eq_Suc)

lemma fromhex_upper_key:
  "fromhex ''ABABABABABABABABABABABABABABABABABABABABABABABABABABABABABABABAB'' = Some (replicate 32 0xAB)"
  by (simp add: hex_val_def is_space_def numeral_eq_Suc)

lemma fromhex_ones_key:
  "fromhex ''0101010101010101010101010101010101010101010101010101010101010101'' = Some (replicate 32 1)"
  by (simp add: hex_val_def is_space_def numeral_eq_Suc)

subsection \<open>The conversion tools\<close>

lemma or_push_bit_int:
  fixes a b :: int
  assumes "0 \<le> a" "a < 2 ^ n"
  shows "a OR push_bit n b = a + 2 ^ n * b"
proof -
  have a: "take_bit n a = a" using assms by (rule take_bit_int_eq_self)
  have "a + push_bit n b = a OR push_bit n b"
  proof (rule disjunctive_add)
    fix m
    have "bit a m \<Longrightarrow> m < n" using a by (metis bit_take_bit_iff)
    then show "\<not> bit a m \<or> \<not> bit (push_bit n b) m"
      by (auto simp: bit_push_bit_iff)
  qed
  then show ?thesis by (simp add: push_bit_eq_mult mult.commute)
qed

lemma uint_byte_less: "uint (b :: byte) < 2 ^ 8"
  using uint_lt2p [of b] by simp

lemma word_val_eq:
  "word_val (b0 # b1 # b2 # b3 # r) =
     Some (uint b0 + 2 ^ 8 * uint b1 + 2 ^ 16 * uint b2 + 2 ^ 24 * uint b3)"
proof -
  have s1: "uint b2 OR push_bit 8 (uint b3) = uint b2 + 2 ^ 8 * uint b3"
    by (rule or_push_bit_int) (simp_all only: uint_ge_0 uint_byte_less)
  have s2: "uint b1 OR push_bit 8 (uint b2 + 2 ^ 8 * uint b3)
                   = uint b1 + 2 ^ 8 * (uint b2 + 2 ^ 8 * uint b3)"
    by (rule or_push_bit_int) (simp_all only: uint_ge_0 uint_byte_less)
  have s3: "uint b0 OR push_bit 8 (uint b1 + 2 ^ 8 * (uint b2 + 2 ^ 8 * uint b3))
                   = uint b0 + 2 ^ 8 * (uint b1 + 2 ^ 8 * (uint b2 + 2 ^ 8 * uint b3))"
    by (rule or_push_bit_int) (simp_all only: uint_ge_0 uint_byte_less)
  have "uint b0 OR push_bit 8 (uint b1) OR push_bit 16 (uint b2) OR push_bit 24 (uint b3)
          = uint b0 OR push_bit 8 (uint b1 OR push_bit 8 (uint b2 OR push_bit 8 (uint b3)))"
    by (simp add: push_bit_or)
  also have "\<dots> = uint b0 + 2 ^ 8 * (uint b1 + 2 ^ 8 * (uint b2 + 2 ^ 8 * uint b3))"
    by (simp only: s1 s2 s3)
  also have "\<dots> = uint b0 + 2 ^ 8 * uint b1 + 2 ^ 16 * uint b2 + 2 ^ 24 * uint b3"
    by simp
  finally show ?thesis by (simp only: word_val.simps)
qed

lemma from_bytes_little_4:
  "from_bytes_little [b0, b1, b2, b3] = uint b0 + 2 ^ 8 * uint b1 + 2 ^ 16 * uint b2 + 2 ^ 24 * uint b3"
  by simp

lemma slice_group:
  assumes "4 * k + 4 \<le> length d"
  shows "slice d (4 * k) (4 * k + 4) = [d ! (4 * k), d ! (4 * k + 1), d ! (4 * k + 2), d ! (4 * k + 3)]"
proof (rule nth_equalityI)
  show "length (slice d (4 * k) (4 * k + 4))
          = length [d ! (4 * k), d ! (4 * k + 1), d ! (4 * k + 2), d ! (4 * k + 3)]"
    using assms by (simp add: slice_def)
next
  fix i assume "i < length (slice d (4 * k) (4 * k + 4))"
  then have i: "i < 4" using assms by (simp add: slice_def)
  then have "i = 0 \<or> i = 1 \<or> i = 2 \<or> i = 3" by arith
  then show "slice d (4 * k) (4 * k + 4) ! i
          = [d ! (4 * k), d ! (4 * k + 1), d ! (4 * k + 2), d ! (4 * k + 3)] ! i"
    using assms by (auto simp: slice_def)
qed

lemma word_val_group:
  assumes "4 * k + 4 \<le> length d"
  shows "word_val (slice d (4 * k) (4 * k + 4)) = Some (le_word d k)"
  unfolding slice_group [OF assms] word_val_eq le_word_def ..

lemma from_bytes_little_group:
  assumes "4 * k + 4 \<le> length d"
  shows "from_bytes_little (slice d (4 * k) (4 * k + 4)) = le_word d k"
  unfolding slice_group [OF assms] from_bytes_little_4 le_word_def ..

lemma write_words_filter:
  assumes "\<And>k. k \<in> set ks \<Longrightarrow> 4 * k + 4 \<le> length d"
  shows "write_words d nw (map (\<lambda>k. 4 * k) ks) =
           Some (map (\<lambda>k. fmt_08x (le_word d k)) (filter (\<lambda>k. int k < nw) ks))"
  using assms
proof (induction ks)
  case Nil
  then show ?case by simp
next
  case (Cons k ks)
  have grp: "word_val (slice d (4 * k) (4 * k + 4)) = Some (le_word d k)"
    by (rule word_val_group) (simp add: Cons.prems)
  have rest: "write_words d nw (map (\<lambda>k. 4 * k) ks) =
           Some (map (\<lambda>k. fmt_08x (le_word d k)) (filter (\<lambda>k. int k < nw) ks))"
    by (rule Cons.IH) (simp add: Cons.prems)
  show ?case by (simp add: grp rest)
qed

lemma filter_less_upt: "filter (\<lambda>k. int k < nw) [0..<m] = [0..<min m (nat nw)]"
proof (induction m)
  case 0
  then show ?case by simp
next
  case (Suc m)
  show ?case
  proof (cases "int m < nw")
    case True
    then have "min (Suc m) (nat nw) = Suc m" "min m (nat nw) = m" by simp_all
    then show ?thesis using Suc True by simp
  next
    case False
    then have "min (Suc m) (nat nw) = nat nw" "min m (nat nw) = nat nw" by simp_all
    then show ?thesis using Suc False by simp
  qed
qed

lemma length_pad4_eq: "length (pad4 buf) = 4 * ((length buf + 3) div 4)"
proof -
  define q r where "q = length buf div 4" and "r = length buf mod 4"
  have n: "length buf = 4 * q + r" and "r < 4" by (simp_all add: q_def r_def)
  then have m: "(4 * q + r) mod 4 = r" by simp
  have "(4 * q + (r + 3)) div 4 = q + (r + 3) div 4" by simp
  then have d: "(4 * q + r + 3) div 4 = q + (r + 3) div 4" by (simp add: add.assoc)
  from \<open>r < 4\<close> have "r = 0 \<or> r = 1 \<or> r = 2 \<or> r = 3" by arith
  then have "r + (4 - r) mod 4 = 4 * ((r + 3) div 4)"
    by (elim disjE) simp_all
  then have "4 * q + r + (4 - (4 * q + r) mod 4) mod 4 = 4 * ((4 * q + r + 3) div 4)"
    unfolding m d by simp
  then show ?thesis by (simp add: pad4_def n)
qed

lemma length_pad4: "length (pad4 buf) mod 4 = 0"
  by (simp add: length_pad4_eq)

lemma pad4_words: "length (pad4 buf) div 4 = (length buf + 3) div 4"
  by (simp add: length_pad4_eq)

lemma bin2hex_padding:
  "(if length buf mod 4 \<noteq> 0 then buf @ replicate (4 - length buf mod 4) 0 else buf) = pad4 buf"
proof (cases "length buf mod 4 = 0")
  case True
  then show ?thesis by (simp add: pad4_def)
next
  case False
  then have "(4 - length buf mod 4) mod 4 = 4 - length buf mod 4" by simp
  then show ?thesis using False by (simp add: pad4_def)
qed

lemma range_step4_aligned: "n mod 4 = 0 \<Longrightarrow> range_step4 n = map (\<lambda>k. 4 * k) [0..<n div 4]"
proof -
  assume "n mod 4 = 0"
  then have "(n + 3) div 4 = n div 4" by presburger
  then show ?thesis by (simp add: range_step4_def)
qed

lemma bin2hex_lines:
  "bin2hex buf arg =
     (let d = pad4 buf; m = length d div 4;
          nw = (case arg of None \<Rightarrow> int m | Some n \<Rightarrow> n)
      in Some (map (\<lambda>k. fmt_08x (le_word d k)) [0..<min m (nat nw)] @
               map (\<lambda>i. ''00000000'') [m..<nat nw]))"
proof -
  let ?d = "pad4 buf"
  let ?m = "length ?d div 4"
  let ?nw = "case arg of None \<Rightarrow> int ?m | Some n \<Rightarrow> n"
  have al: "length ?d mod 4 = 0" by (rule length_pad4)
  have len: "length ?d = 4 * ?m" by (simp add: length_pad4_eq)
  have "write_words ?d ?nw (map (\<lambda>k. 4 * k) [0..<?m]) =
          Some (map (\<lambda>k. fmt_08x (le_word ?d k)) (filter (\<lambda>k. int k < ?nw) [0..<?m]))"
  proof (rule write_words_filter)
    fix k assume "k \<in> set [0..<?m]"
    then have "k < ?m" by simp
    then have "4 * k + 4 \<le> 4 * ?m" by simp
    then show "4 * k + 4 \<le> length ?d" using len by simp
  qed
  then have w: "write_words ?d ?nw (range_step4 (length ?d)) =
          Some (map (\<lambda>k. fmt_08x (le_word ?d k)) [0..<min ?m (nat ?nw)])"
    by (simp only: range_step4_aligned [OF al] filter_less_upt)
  show ?thesis
    unfolding bin2hex_def bin2hex_padding Let_def w by simp
qed

lemma pad4_nth:
  "i < length (pad4 b) \<Longrightarrow> pad4 b ! i = (if i < length b then b ! i else 0)"
  by (simp add: pad4_def nth_append)

lemma imem_group:
  assumes "k < (length b + 3) div 4"
  shows "(let w = slice b (4 * k) (4 * k + 4)
          in if length w < 4 then w @ replicate (4 - length w) 0 else w) =
         slice (pad4 b) (4 * k) (4 * k + 4)"
proof -
  let ?w = "slice b (4 * k) (4 * k + 4)"
  let ?w' = "if length ?w < 4 then ?w @ replicate (4 - length ?w) 0 else ?w"
  let ?r = "slice (pad4 b) (4 * k) (4 * k + 4)"
  have lw: "length ?w = min 4 (length b - 4 * k)" by (simp add: slice_def)
  have l1: "length ?w' = 4" by (simp add: lw)
  have fit: "4 * k + 4 \<le> length (pad4 b)"
    using assms by (simp add: length_pad4_eq)
  have l2: "length ?r = 4" using fit by (simp add: slice_def)
  have "?w' = ?r"
  proof (rule nth_equalityI)
    show "length ?w' = length ?r" by (simp only: l1 l2)
  next
    fix i assume "i < length ?w'"
    then have i: "i < 4" by (simp only: l1)
    have a: "?w' ! i = (if 4 * k + i < length b then b ! (4 * k + i) else 0)"
      using i by (auto simp: lw nth_append slice_def)
    have "?r ! i = pad4 b ! (4 * k + i)" using i fit by (simp add: slice_def)
    also have "\<dots> = (if 4 * k + i < length b then b ! (4 * k + i) else 0)"
      by (rule pad4_nth) (use i fit in simp)
    finally show "?w' ! i = ?r ! i" using a by simp
  qed
  then show ?thesis by (simp only: Let_def)
qed

lemma make_imem_lines:
  "make_imem b = map (\<lambda>k. memory_line k (le_word (pad4 b) k)) [0..<length (pad4 b) div 4]"
proof -
  let ?m = "(length b + 3) div 4"
  let ?f = "\<lambda>i. let w = slice b i (i + 4);
                     w = (if length w < 4 then w @ replicate (4 - length w) 0 else w);
                     val = from_bytes_little w
                 in memory_line (i div 4) val"
  have "?f (4 * k) = memory_line k (le_word (pad4 b) k)" if "k < ?m" for k
  proof -
    have fit: "4 * k + 4 \<le> length (pad4 b)" using that by (simp add: length_pad4_eq)
    have "?f (4 * k) = memory_line k (from_bytes_little
            (let w = slice b (4 * k) (4 * k + 4)
             in if length w < 4 then w @ replicate (4 - length w) 0 else w))"
      by (simp add: Let_def)
    also have "\<dots> = memory_line k (from_bytes_little (slice (pad4 b) (4 * k) (4 * k + 4)))"
      by (simp only: imem_group [OF that])
    also have "\<dots> = memory_line k (le_word (pad4 b) k)"
      by (simp only: from_bytes_little_group [OF fit])
    finally show ?thesis .
  qed
  then have "map (\<lambda>k. ?f (4 * k)) [0..<?m] = map (\<lambda>k. memory_line k (le_word (pad4 b) k)) [0..<?m]"
    by (intro map_cong) simp_all
  then show ?thesis
    by (simp add: make_imem_def range_step4_def pad4_words comp_def)
qed

lemma length_hex_str: "0 < k \<Longrightarrow> n < 16 ^ k \<Longrightarrow> length (hex_str n) \<le> k"
proof (induction k arbitrary: n)
  case 0
  then show ?case by simp
next
  case (Suc k)
  show ?case
  proof (cases "n < 16")
    case True
    then show ?thesis by (simp add: hex_str.simps)
  next
    case False
    with Suc.prems have k: "0 < k" by (cases k) simp_all
    have "n < 16 ^ k * 16" using Suc.prems by (simp add: mult.commute)
    then have "n div 16 < 16 ^ k" by (simp add: div_less_iff_less_mult)
    then have "length (hex_str (n div 16)) \<le> k" using k by (intro Suc.IH)
    then show ?thesis using False by (simp add: hex_str.simps [of n])
  qed
qed

lemma length_fmt_08x: "0 \<le> n \<Longrightarrow> n < 2 ^ 32 \<Longrightarrow> length (fmt_08x n) = 8"
proof -
  assume "0 \<le> n" "n < 2 ^ 32"
  then have "n < 16 ^ 8" by simp
  then have "length (hex_str n) \<le> 8" by (intro length_hex_str) simp_all
  then show ?thesis using \<open>0 \<le> n\<close> by (simp add: fmt_08x_def zero_fill_def)
qed

lemma le_word_range: "0 \<le> le_word d k" "le_word d k < 2 ^ 32"
proof -
  have "uint (d ! (4 * k)) < 256" "uint (d ! (4 * k + 1)) < 256"
       "uint (d ! (4 * k + 2)) < 256" "uint (d ! (4 * k + 3)) < 256"
    using uint_byte_less by simp_all
  then show "le_word d k < 2 ^ 32" by (simp add: le_word_def)
  show "0 \<le> le_word d k" by (simp add: le_word_def)
qed

lemma replicate_numeral_unfold: "replicate (numeral k) x = x # replicate (pred_numeral k) x"
  by (simp add: numeral_eq_Suc)

lemma pad4_is_padding:
  "pad4 buf = buf @ replicate (length (pad4 buf) - length buf) 0"
  by (simp add: pad4_def)

lemma pad4_short: "length (pad4 buf) < length buf + 4"
  by (simp add: pad4_def)

subsection \<open>The check of the boot verifier on a signed image\<close>

text \<open>
  On the image of a successful run the verifier's check comes down to one equation between
  two digests: it accepts exactly when HMAC-SHA256 gives, for the signed bytes followed
  by 32 zero bytes, the digest it gives for the signed bytes alone.
\<close>

lemma le_value_group_inject:
  assumes "length g = 4" "length g' = 4" "le_value g = le_value g'"
  shows "g = g'"
proof -
  have "Some g = pack_u32 (le_value g)" using pack_group [OF assms(1)] by simp
  also have "\<dots> = Some g'" using pack_group [OF assms(2)] assms(3) by simp
  finally show ?thesis by simp
qed

lemma split_32_bytes:
  assumes "length mac = 32"
  shows "mac = concat (map (\<lambda>i. slice mac (4 * i) (4 * i + 4)) [0..<8])"
proof -
  have u: "[0..<8] = [0, 1, 2, 3, 4, 5, 6, 7]" by code_simp
  have "slice mac 0 32 = mac" using assms by (simp add: slice_def)
  moreover have "slice mac 0 4 @ slice mac 4 8 @ slice mac 8 12 @ slice mac 12 16 @
                 slice mac 16 20 @ slice mac 20 24 @ slice mac 24 28 @ slice mac 28 32 = slice mac 0 32"
    by (simp add: slice_append_step)
  ultimately show ?thesis by (simp add: u)
qed

lemma digest_words_inject:
  assumes "length a = 32" "length b = 32" "digest_words a = digest_words b"
  shows "a = b"
proof -
  have "slice a (4 * i) (4 * i + 4) = slice b (4 * i) (4 * i + 4)" if "i < 8" for i
  proof (rule le_value_group_inject)
    show "length (slice a (4 * i) (4 * i + 4)) = 4" using that assms(1) by (simp add: length_slice)
    show "length (slice b (4 * i) (4 * i + 4)) = 4" using that assms(2) by (simp add: length_slice)
    have "digest_words a ! i = digest_words b ! i" by (simp only: assms(3))
    then show "le_value (slice a (4 * i) (4 * i + 4)) = le_value (slice b (4 * i) (4 * i + 4))"
      using that by (simp add: digest_words_def)
  qed
  then have "map (\<lambda>i. slice a (4 * i) (4 * i + 4)) [0..<8] = map (\<lambda>i. slice b (4 * i) (4 * i + 4)) [0..<8]"
    by (intro map_cong) simp_all
  then have "concat (map (\<lambda>i. slice a (4 * i) (4 * i + 4)) [0..<8]) =
             concat (map (\<lambda>i. slice b (4 * i) (4 * i + 4)) [0..<8])"
    by (rule arg_cong)
  then show ?thesis
    by (simp only: split_32_bytes [OF assms(1), symmetric] split_32_bytes [OF assms(2), symmetric])
qed

lemma boot_verify_signed_image:
  assumes "length payload \<le> header_offset" "in_u32 version" "in_u32 now"
  shows "boot_verify key (signed_image payload version now key) \<longleftrightarrow>
           hmac_sha256 key (pad_firmware payload @ unsigned_header version now @ replicate 32 0)
             = hmac_sha256 key (pad_firmware payload @ unsigned_header version now)"
proof -
  let ?img = "signed_image payload version now key"
  let ?p = "pad_firmware payload" and ?h = "unsigned_header version now"
  let ?mac = "hmac_sha256 key (?p @ ?h)"
  let ?mac' = "hmac_sha256 key (?p @ ?h @ replicate 32 0)"
  note len = assms(1)
  have hdr: "drop header_offset ?img = ?h @ ?mac"
    using len by (simp add: signed_image_def length_pad_firmware)
  have pay: "take header_offset ?img = ?p" using len by (rule signed_image_parts(1))
  have h32: "take 32 (?h @ ?mac) = ?h" by (simp add: length_unsigned_header)
  have magic: "u32_at (?h @ ?mac) 0 = 0xDEADBEEF"
  proof -
    have "u32_at ([] @ concat (map le32 (header_words version now)) @ ?mac) (0 + 4 * 0)
            = header_words version now ! 0"
      by (rule u32_at_header_word) (simp_all add: header_words_def in_u32_consts)
    then show ?thesis by (simp add: unsigned_header_def header_words_def)
  qed
  have sig: "map (\<lambda>i. u32_at (?h @ ?mac) (32 + 4 * i)) [0..<8] = digest_words ?mac"
  proof -
    have "u32_at (?h @ ?mac) (32 + 4 * i) = u32_at ?mac (4 * i)" for i
      by (rule u32_at_after_prefix) (rule length_unsigned_header)
    then show ?thesis by (simp add: digest_words_def u32_at_def)
  qed
  have "boot_verify key ?img \<longleftrightarrow> digest_words ?mac' = digest_words ?mac"
    unfolding boot_verify_def Let_def hdr pay h32 magic sig by simp
  also have "\<dots> \<longleftrightarrow> ?mac' = ?mac"
    using digest_words_inject [of ?mac' ?mac] by (auto simp: length_hmac_sha256)
  finally show ?thesis .
qed

section \<open>Claims about sign_firmware\<close>

text \<open>
  C1, as the code has it. The signature embedded by a successful run is
  \<open>HMAC_SHA256(key, padded_payload @ header)\<close>, where \<open>header\<close> is the packing of the
  eight header words that precede the signature (lines 75-82). The signature field is
  left out of the bytes that are signed, it is not present as zeros: the MAC input is the
  first \<open>PAYLOAD_MAX + 32\<close> bytes of the image.
\<close>

theorem mac_covers_payload_and_header_words:
  assumes "files fs firmware_path = Some payload"
    and "length payload \<le> header_offset"
    and "in_u32 version" and "in_u32 now"
    and "fromhex key_hex = Some key" and "length key = 32"
    and "writable fs output_path"
  shows "\<exists>image.
           sign_firmware fs now firmware_path key_hex version output_path =
             Inr (fs\<lparr>files := (files fs)(output_path \<mapsto> image)\<rparr>) \<and>
           pack_header version (int (length (pad_firmware payload))) now =
             Some (unsigned_header version now) \<and>
           drop (header_offset + 32) image =
             hmac_sha256 key (data_to_sign (pad_firmware payload) (unsigned_header version now)) \<and>
           data_to_sign (pad_firmware payload) (unsigned_header version now) =
             take (header_offset + 32) image \<and>
           length (data_to_sign (pad_firmware payload) (unsigned_header version now)) =
             header_offset + 32"
proof -
  let ?img = "signed_image payload version now key"
  note len = assms(2)
  have run: "sign_firmware fs now firmware_path key_hex version output_path =
               Inr (fs\<lparr>files := (files fs)(output_path \<mapsto> ?img)\<rparr>)"
    using assms by (rule sign_firmware_success)
  have hdr: "pack_header version (int (length (pad_firmware payload))) now =
             Some (unsigned_header version now)"
    using pack_header_ok [OF assms(3,4)] len by (simp add: length_pad_firmware)
  have sig: "drop (header_offset + 32) ?img =
             hmac_sha256 key (data_to_sign (pad_firmware payload) (unsigned_header version now))"
    using signed_image_parts(3) [OF len] by (simp add: data_to_sign_def)
  have span: "data_to_sign (pad_firmware payload) (unsigned_header version now) =
             take (header_offset + 32) ?img"
    using signed_image_parts(2) [OF len] by (simp add: data_to_sign_def)
  have size: "length (data_to_sign (pad_firmware payload) (unsigned_header version now)) =
             header_offset + 32"
    using len by (simp add: data_to_sign_def length_pad_firmware length_unsigned_header)
  from run hdr sig span size show ?thesis by blast
qed

theorem mac_covers_payload_and_header_words_witness:
  "\<exists>image.
     sign_firmware \<lparr>files = [''fw.bin'' \<mapsto> [0xAA]], writable = (\<lambda>p. True)\<rparr> 9 ''fw.bin''
         ''0000000000000000000000000000000000000000000000000000000000000000'' 0 ''fw.img'' =
       Inr (\<lparr>files = [''fw.bin'' \<mapsto> [0xAA]], writable = (\<lambda>p. True)\<rparr>
              \<lparr>files := [''fw.bin'' \<mapsto> [0xAA], ''fw.img'' \<mapsto> image]\<rparr>) \<and>
     pack_header 0 (int (length (pad_firmware [0xAA]))) 9 = Some (unsigned_header 0 9) \<and>
     drop (header_offset + 32) image =
       hmac_sha256 (replicate 32 0) (data_to_sign (pad_firmware [0xAA]) (unsigned_header 0 9)) \<and>
     data_to_sign (pad_firmware [0xAA]) (unsigned_header 0 9) = take (header_offset + 32) image \<and>
     length (data_to_sign (pad_firmware [0xAA]) (unsigned_header 0 9)) = header_offset + 32"
proof -
  let ?fs = "\<lparr>files = [''fw.bin'' \<mapsto> [0xAA :: byte]], writable = (\<lambda>p. True)\<rparr>"
  have h1: "files ?fs ''fw.bin'' = Some [0xAA]" by simp
  have h2: "length [0xAA :: byte] \<le> header_offset" by (simp add: header_offset_def)
  have h3: "in_u32 0" and h4: "in_u32 9" by (simp_all add: in_u32_def)
  have h6: "length (replicate 32 (0 :: byte)) = 32" by simp
  have h7: "writable ?fs ''fw.img''" by simp
  from mac_covers_payload_and_header_words [OF h1 h2 h3 h4 fromhex_zero_key h6 h7]
  show ?thesis by simp
qed

text \<open>
  C1 as stated fails: for the empty payload, version 1, clock reading 0 and the all-zero
  key, the bytes handed to the MAC are 65504 bytes long and differ from the 65536 bytes
  of padded payload followed by the 64-byte header with a zeroed signature field.
\<close>

theorem mac_input_counterexample:
  "sign_firmware \<lparr>files = [''fw.bin'' \<mapsto> []], writable = (\<lambda>p. True)\<rparr> 0 ''fw.bin''
       ''0000000000000000000000000000000000000000000000000000000000000000'' 1 ''out.bin'' =
     Inr (\<lparr>files = [''fw.bin'' \<mapsto> []], writable = (\<lambda>p. True)\<rparr>
            \<lparr>files := [''fw.bin'' \<mapsto> [],
                        ''out.bin'' \<mapsto>
                          pad_firmware [] @ unsigned_header 1 0 @
                          hmac_sha256 (replicate 32 0)
                            (data_to_sign (pad_firmware []) (unsigned_header 1 0))]\<rparr>) \<and>
   pack_header 1 (int (length (pad_firmware []))) 0 = Some (unsigned_header 1 0) \<and>
   length (data_to_sign (pad_firmware []) (unsigned_header 1 0)) = 65504 \<and>
   length (pad_firmware [] @ unsigned_header 1 0 @ replicate 32 0) = header_offset + 64 \<and>
   data_to_sign (pad_firmware []) (unsigned_header 1 0) \<noteq>
     pad_firmware [] @ unsigned_header 1 0 @ replicate 32 0"
proof -
  let ?fs = "\<lparr>files = [''fw.bin'' \<mapsto> ([] :: byte list)], writable = (\<lambda>p. True)\<rparr>"
  have h1: "files ?fs ''fw.bin'' = Some []" by simp
  have h2: "length ([] :: byte list) \<le> header_offset" by simp
  have h3: "in_u32 1" and h4: "in_u32 0" by (simp_all add: in_u32_def)
  have h6: "length (replicate 32 (0 :: byte)) = 32" by simp
  have h7: "writable ?fs ''out.bin''" by simp
  have run: "sign_firmware ?fs 0 ''fw.bin''
       ''0000000000000000000000000000000000000000000000000000000000000000'' 1 ''out.bin'' =
     Inr (?fs\<lparr>files := (files ?fs)(''out.bin'' \<mapsto> signed_image [] 1 0 (replicate 32 0))\<rparr>)"
    using h1 h2 h3 h4 fromhex_zero_key h6 h7 by (rule sign_firmware_success)
  have hdr: "pack_header 1 (int (length (pad_firmware []))) 0 = Some (unsigned_header 1 0)"
    using pack_header_ok [OF h3 h4] by (simp add: length_pad_firmware)
  have l1: "length (data_to_sign (pad_firmware []) (unsigned_header 1 0)) = 65504"
    by (simp add: data_to_sign_def length_pad_firmware length_unsigned_header header_offset_def)
  have l2: "length (pad_firmware [] @ unsigned_header 1 0 @ replicate 32 (0 :: byte)) = header_offset + 64"
    by (simp add: length_pad_firmware length_unsigned_header)
  have ne: "data_to_sign (pad_firmware []) (unsigned_header 1 0) \<noteq>
     pad_firmware [] @ unsigned_header 1 0 @ replicate 32 0"
  proof
    assume "data_to_sign (pad_firmware []) (unsigned_header 1 0) =
              pad_firmware [] @ unsigned_header 1 0 @ replicate 32 0"
    then have "length (data_to_sign (pad_firmware []) (unsigned_header 1 0)) =
                 length (pad_firmware [] @ unsigned_header 1 0 @ replicate 32 (0 :: byte))"
      by simp
    then show False unfolding l1 l2 by (simp add: header_offset_def)
  qed
  from run hdr l1 l2 ne show ?thesis
    by (simp add: signed_image_def data_to_sign_def)
qed

text \<open>
  C3 (size invariant). For every payload of at most \<open>PAYLOAD_MAX = 0xFFC0\<close> bytes and
  every key of 32 bytes, the run succeeds and the image written has exactly
  \<open>PAYLOAD_MAX + 64 = 65536\<close> bytes, whatever the length of the payload. The version and
  the clock reading are 32-bit unsigned values, as the header fields are, and the output
  path can be written.
\<close>

theorem signed_image_size:
  assumes "files fs firmware_path = Some payload"
    and "length payload \<le> header_offset"
    and "in_u32 version" and "in_u32 now"
    and "fromhex key_hex = Some key" and "length key = 32"
    and "writable fs output_path"
  shows "\<exists>image.
           sign_firmware fs now firmware_path key_hex version output_path =
             Inr (fs\<lparr>files := (files fs)(output_path \<mapsto> image)\<rparr>) \<and>
           length image = header_offset + 64 \<and> length image = 65536"
proof (intro exI conjI)
  show "sign_firmware fs now firmware_path key_hex version output_path =
          Inr (fs\<lparr>files := (files fs)(output_path \<mapsto> signed_image payload version now key)\<rparr>)"
    using assms by (rule sign_firmware_success)
  show "length (signed_image payload version now key) = header_offset + 64"
    using assms(2) by (rule length_signed_image)
  then show "length (signed_image payload version now key) = 65536"
    by (simp add: header_offset_def)
qed

theorem signed_image_size_witness:
  "files \<lparr>files = [''firmware.bin'' \<mapsto> [1, 2, 3]], writable = (\<lambda>p. True)\<rparr> ''firmware.bin''
     = Some [1, 2, 3] \<and>
   length [1, 2, 3 :: byte] \<le> header_offset \<and> in_u32 1 \<and> in_u32 1700000000 \<and>
   fromhex ''0000000000000000000000000000000000000000000000000000000000000000''
     = Some (replicate 32 0) \<and>
   length (replicate 32 (0 :: byte)) = 32 \<and>
   writable \<lparr>files = [''firmware.bin'' \<mapsto> [1, 2, 3]], writable = (\<lambda>p. True)\<rparr> ''signed.bin'' \<and>
   (\<exists>image.
      sign_firmware \<lparr>files = [''firmware.bin'' \<mapsto> [1, 2, 3]], writable = (\<lambda>p. True)\<rparr>
          1700000000 ''firmware.bin''
          ''0000000000000000000000000000000000000000000000000000000000000000'' 1 ''signed.bin''
        = Inr (\<lparr>files = [''firmware.bin'' \<mapsto> [1, 2, 3]], writable = (\<lambda>p. True)\<rparr>
                 \<lparr>files := [''firmware.bin'' \<mapsto> [1, 2, 3], ''signed.bin'' \<mapsto> image]\<rparr>) \<and>
      length image = header_offset + 64 \<and> length image = 65536)"
proof -
  let ?fs = "\<lparr>files = [''firmware.bin'' \<mapsto> [1, 2, 3 :: byte]], writable = (\<lambda>p. True)\<rparr>"
  have h1: "files ?fs ''firmware.bin'' = Some [1, 2, 3]" by simp
  have h2: "length [1, 2, 3 :: byte] \<le> header_offset" by (simp add: header_offset_def)
  have h3: "in_u32 1" and h4: "in_u32 1700000000" by (simp_all add: in_u32_def)
  note h5 = fromhex_zero_key
  have h6: "length (replicate 32 (0 :: byte)) = 32" by simp
  have h7: "writable ?fs ''signed.bin''" by simp
  from signed_image_size [OF h1 h2 h3 h4 h5 h6 h7] h1 h2 h3 h4 h5 h6 h7
  show ?thesis by simp
qed

text \<open>
  C4 (boundary). A payload of exactly \<open>PAYLOAD_MAX\<close> bytes is signed; a payload of
  \<open>PAYLOAD_MAX + 1\<close> bytes ends in \<open>PayloadTooLarge\<close> with the actual size, the limit
  and an overflow of 1; every payload longer than \<open>PAYLOAD_MAX\<close> ends in
  \<open>PayloadTooLarge\<close> with overflow \<open>L - PAYLOAD_MAX\<close>, and no image is written.
\<close>

theorem payload_size_boundary:
  assumes "files fs firmware_path = Some payload"
  shows "(length payload = header_offset \<and> in_u32 version \<and> in_u32 now \<and>
          fromhex key_hex = Some key \<and> length key = 32 \<and> writable fs output_path \<longrightarrow>
            (\<exists>image. sign_firmware fs now firmware_path key_hex version output_path =
               Inr (fs\<lparr>files := (files fs)(output_path \<mapsto> image)\<rparr>))) \<and>
         (length payload = header_offset + 1 \<longrightarrow>
            sign_firmware fs now firmware_path key_hex version output_path =
              Inl (PayloadTooLarge (header_offset + 1) header_offset 1)) \<and>
         (header_offset < length payload \<longrightarrow>
            sign_firmware fs now firmware_path key_hex version output_path =
              Inl (PayloadTooLarge (length payload) header_offset (length payload - header_offset)) \<and>
            written_image (sign_firmware fs now firmware_path key_hex version output_path) output_path
              = None)"
proof (intro conjI impI)
  assume "length payload = header_offset \<and> in_u32 version \<and> in_u32 now \<and>
          fromhex key_hex = Some key \<and> length key = 32 \<and> writable fs output_path"
  then have "sign_firmware fs now firmware_path key_hex version output_path =
          Inr (fs\<lparr>files := (files fs)(output_path \<mapsto> signed_image payload version now key)\<rparr>)"
    using assms by (intro sign_firmware_success) simp_all
  then show "\<exists>image. sign_firmware fs now firmware_path key_hex version output_path =
               Inr (fs\<lparr>files := (files fs)(output_path \<mapsto> image)\<rparr>)" ..
next
  assume "length payload = header_offset + 1"
  then show "sign_firmware fs now firmware_path key_hex version output_path =
              Inl (PayloadTooLarge (header_offset + 1) header_offset 1)"
    using sign_firmware_too_large [OF assms, of now key_hex version output_path] by simp
next
  assume big: "header_offset < length payload"
  show too: "sign_firmware fs now firmware_path key_hex version output_path =
              Inl (PayloadTooLarge (length payload) header_offset (length payload - header_offset))"
    using assms big by (rule sign_firmware_too_large)
  show "written_image (sign_firmware fs now firmware_path key_hex version output_path) output_path
              = None"
    by (simp add: too written_image_def)
qed

theorem payload_size_boundary_witness:
  "(\<exists>image.
      sign_firmware \<lparr>files = [''fw.bin'' \<mapsto> replicate 65472 7], writable = (\<lambda>p. True)\<rparr>
          0 ''fw.bin'' ''0000000000000000000000000000000000000000000000000000000000000000'' 2 ''out.bin''
        = Inr (\<lparr>files = [''fw.bin'' \<mapsto> replicate 65472 7], writable = (\<lambda>p. True)\<rparr>
                 \<lparr>files := [''fw.bin'' \<mapsto> replicate 65472 7, ''out.bin'' \<mapsto> image]\<rparr>)) \<and>
   sign_firmware \<lparr>files = [''fw.bin'' \<mapsto> replicate 65473 7], writable = (\<lambda>p. True)\<rparr>
       0 ''fw.bin'' ''0000000000000000000000000000000000000000000000000000000000000000'' 2 ''out.bin''
     = Inl (PayloadTooLarge 65473 65472 1) \<and>
   written_image
     (sign_firmware \<lparr>files = [''fw.bin'' \<mapsto> replicate 65473 7], writable = (\<lambda>p. True)\<rparr>
        0 ''fw.bin'' ''0000000000000000000000000000000000000000000000000000000000000000'' 2 ''out.bin'')
     ''out.bin'' = None"
proof -
  let ?fs = "\<lambda>n. \<lparr>files = [''fw.bin'' \<mapsto> replicate n (7 :: byte)], writable = (\<lambda>p. True)\<rparr>"
  let ?k = "''0000000000000000000000000000000000000000000000000000000000000000''"
  have a: "files (?fs 65472) ''fw.bin'' = Some (replicate 65472 7)" by simp
  have b: "files (?fs 65473) ''fw.bin'' = Some (replicate 65473 7)" by simp
  have ok: "length (replicate 65472 (7 :: byte)) = header_offset \<and> in_u32 2 \<and> in_u32 0 \<and>
          fromhex ?k = Some (replicate 32 0) \<and> length (replicate 32 (0 :: byte)) = 32 \<and>
          writable (?fs 65472) ''out.bin''"
    by (intro conjI fromhex_zero_key) (simp_all add: header_offset_def in_u32_def)
  have big: "length (replicate 65473 (7 :: byte)) = header_offset + 1"
    "header_offset < length (replicate 65473 (7 :: byte))"
    by (simp_all add: header_offset_def)
  from payload_size_boundary [OF a, of 2 0 ?k "replicate 32 0" "''out.bin''"] ok
  have 1: "\<exists>image. sign_firmware (?fs 65472) 0 ''fw.bin'' ?k 2 ''out.bin'' =
             Inr ((?fs 65472)\<lparr>files := (files (?fs 65472))(''out.bin'' \<mapsto> image)\<rparr>)"
    by blast
  from payload_size_boundary [OF b, of 2 0 ?k "replicate 32 0" "''out.bin''"] big
  have 2: "sign_firmware (?fs 65473) 0 ''fw.bin'' ?k 2 ''out.bin'' =
              Inl (PayloadTooLarge (header_offset + 1) header_offset 1)"
    and 3: "written_image (sign_firmware (?fs 65473) 0 ''fw.bin'' ?k 2 ''out.bin'') ''out.bin'' = None"
    by blast+
  from 1 2 3 show ?thesis by (simp add: header_offset_def)
qed

text \<open>
  C5, as the code has it. The key is checked after the payload has been read, checked
  against \<open>PAYLOAD_MAX\<close> and padded, and after the header words have been packed, so a
  payload longer than \<open>PAYLOAD_MAX\<close> ends the run in \<open>PayloadTooLarge\<close> whatever the
  key. For a payload of at most \<open>PAYLOAD_MAX\<close> bytes and 32-bit version and clock
  reading: a key that decodes to a number of bytes other than 32 ends the run in
  \<open>InvalidKeyLength\<close> before any MAC is computed (the trace holds the read of the
  firmware file and nothing else) and with no image written; a key string that is not
  hexadecimal ends it in \<open>MalformedKeyEncoding\<close>, again before any MAC; and the key of
  32 zero bytes is accepted: the MAC is computed with it and the image is written.
\<close>

theorem key_gate:
  assumes "files fs firmware_path = Some payload"
  shows "(header_offset < length payload \<longrightarrow>
            sign_firmware fs now firmware_path key_hex version output_path =
              Inl (PayloadTooLarge (length payload) header_offset (length payload - header_offset))) \<and>
         (length payload \<le> header_offset \<and> in_u32 version \<and> in_u32 now \<longrightarrow>
            (fromhex key_hex = Some key \<and> length key \<noteq> 32 \<longrightarrow>
               sign_firmware fs now firmware_path key_hex version output_path =
                 Inl (InvalidKeyLength (length key * 8) (length key_hex)) \<and>
               fst (sign_firmware_trace fs now firmware_path key_hex version output_path) =
                 [FileRead firmware_path] \<and>
               written_image (sign_firmware fs now firmware_path key_hex version output_path)
                 output_path = None) \<and>
            (fromhex key_hex = None \<longrightarrow>
               sign_firmware fs now firmware_path key_hex version output_path =
                 Inl MalformedKeyEncoding \<and>
               fst (sign_firmware_trace fs now firmware_path key_hex version output_path) =
                 [FileRead firmware_path]) \<and>
            (fromhex key_hex = Some (replicate 32 0) \<and> writable fs output_path \<longrightarrow>
               (\<exists>image.
                  sign_firmware fs now firmware_path key_hex version output_path =
                    Inr (fs\<lparr>files := (files fs)(output_path \<mapsto> image)\<rparr>) \<and>
                  fst (sign_firmware_trace fs now firmware_path key_hex version output_path) =
                    [FileRead firmware_path,
                     MacComputed (replicate 32 0)
                       (data_to_sign (pad_firmware payload) (unsigned_header version now)),
                     FileWritten output_path])))"
proof (intro conjI impI)
  assume "header_offset < length payload"
  with assms show "sign_firmware fs now firmware_path key_hex version output_path =
              Inl (PayloadTooLarge (length payload) header_offset (length payload - header_offset))"
    by (rule sign_firmware_too_large)
next
  assume ok: "length payload \<le> header_offset \<and> in_u32 version \<and> in_u32 now"
    and k: "fromhex key_hex = Some key \<and> length key \<noteq> 32"
  have t: "sign_firmware_trace fs now firmware_path key_hex version output_path =
           ([FileRead firmware_path], Inl (InvalidKeyLength (length key * 8) (length key_hex)))"
    using assms ok k by (intro sign_firmware_trace_bad_key_length) blast+
  show e: "sign_firmware fs now firmware_path key_hex version output_path =
              Inl (InvalidKeyLength (length key * 8) (length key_hex))"
    using assms ok k by (intro sign_firmware_bad_key_length) blast+
  show "fst (sign_firmware_trace fs now firmware_path key_hex version output_path) =
                 [FileRead firmware_path]"
    by (simp add: t)
  show "written_image (sign_firmware fs now firmware_path key_hex version output_path) output_path
              = None"
    by (simp add: e written_image_def)
next
  assume ok: "length payload \<le> header_offset \<and> in_u32 version \<and> in_u32 now"
    and k: "fromhex key_hex = None"
  show "sign_firmware fs now firmware_path key_hex version output_path = Inl MalformedKeyEncoding"
    using assms ok k by (intro sign_firmware_bad_key_encoding) blast+
  have "sign_firmware_trace fs now firmware_path key_hex version output_path =
           ([FileRead firmware_path], Inl MalformedKeyEncoding)"
    using assms ok k by (intro sign_firmware_trace_bad_key_encoding) blast+
  then show "fst (sign_firmware_trace fs now firmware_path key_hex version output_path) =
                 [FileRead firmware_path]"
    by simp
next
  assume ok: "length payload \<le> header_offset \<and> in_u32 version \<and> in_u32 now"
    and k: "fromhex key_hex = Some (replicate 32 0) \<and> writable fs output_path"
  have r: "sign_firmware fs now firmware_path key_hex version output_path =
          Inr (fs\<lparr>files := (files fs)(output_path \<mapsto> signed_image payload version now (replicate 32 0))\<rparr>)"
    using assms ok k by (intro sign_firmware_success) (blast, blast, blast, blast, blast, simp, blast)
  have "sign_firmware_trace fs now firmware_path key_hex version output_path =
           ([FileRead firmware_path,
             MacComputed (replicate 32 0) (data_to_sign (pad_firmware payload) (unsigned_header version now)),
             FileWritten output_path],
            Inr (fs\<lparr>files := (files fs)(output_path \<mapsto> signed_image payload version now (replicate 32 0))\<rparr>))"
    using assms ok k by (intro sign_firmware_trace_success) (blast, blast, blast, blast, blast, simp, blast)
  then have t: "fst (sign_firmware_trace fs now firmware_path key_hex version output_path) =
                    [FileRead firmware_path,
                     MacComputed (replicate 32 0)
                       (data_to_sign (pad_firmware payload) (unsigned_header version now)),
                     FileWritten output_path]"
    by simp
  from r t show "\<exists>image.
                  sign_firmware fs now firmware_path key_hex version output_path =
                    Inr (fs\<lparr>files := (files fs)(output_path \<mapsto> image)\<rparr>) \<and>
                  fst (sign_firmware_trace fs now firmware_path key_hex version output_path) =
                    [FileRead firmware_path,
                     MacComputed (replicate 32 0)
                       (data_to_sign (pad_firmware payload) (unsigned_header version now)),
                     FileWritten output_path]"
    by blast
qed

theorem key_gate_witness:
  "sign_firmware \<lparr>files = [''fw.bin'' \<mapsto> replicate 65473 0], writable = (\<lambda>p. True)\<rparr>
       5 ''fw.bin'' ''0g'' 0 ''out.bin''
     = Inl (PayloadTooLarge 65473 65472 1) \<and>
   sign_firmware \<lparr>files = [''fw.bin'' \<mapsto> []], writable = (\<lambda>p. True)\<rparr>
       5 ''fw.bin'' ''00000000000000000000000000000000000000000000000000000000000000'' 0 ''out.bin''
     = Inl (InvalidKeyLength 248 62) \<and>
   fst (sign_firmware_trace \<lparr>files = [''fw.bin'' \<mapsto> []], writable = (\<lambda>p. True)\<rparr>
       5 ''fw.bin'' ''00000000000000000000000000000000000000000000000000000000000000'' 0 ''out.bin'')
     = [FileRead ''fw.bin''] \<and>
   sign_firmware \<lparr>files = [''fw.bin'' \<mapsto> []], writable = (\<lambda>p. True)\<rparr>
       5 ''fw.bin'' ''000000000000000000000000000000000000000000000000000000000000000000'' 0 ''out.bin''
     = Inl (InvalidKeyLength 264 66) \<and>
   sign_firmware \<lparr>files = [''fw.bin'' \<mapsto> []], writable = (\<lambda>p. True)\<rparr>
       5 ''fw.bin'' ''0g'' 0 ''out.bin''
     = Inl MalformedKeyEncoding \<and>
   fst (sign_firmware_trace \<lparr>files = [''fw.bin'' \<mapsto> []], writable = (\<lambda>p. True)\<rparr>
       5 ''fw.bin'' ''0g'' 0 ''out.bin'')
     = [FileRead ''fw.bin''] \<and>
   (\<exists>image.
      sign_firmware \<lparr>files = [''fw.bin'' \<mapsto> []], writable = (\<lambda>p. True)\<rparr>
          5 ''fw.bin'' ''0000000000000000000000000000000000000000000000000000000000000000'' 0 ''out.bin''
        = Inr (\<lparr>files = [''fw.bin'' \<mapsto> []], writable = (\<lambda>p. True)\<rparr>
                 \<lparr>files := [''fw.bin'' \<mapsto> [], ''out.bin'' \<mapsto> image]\<rparr>) \<and>
      fst (sign_firmware_trace \<lparr>files = [''fw.bin'' \<mapsto> []], writable = (\<lambda>p. True)\<rparr>
          5 ''fw.bin'' ''0000000000000000000000000000000000000000000000000000000000000000'' 0 ''out.bin'')
        = [FileRead ''fw.bin'',
           MacComputed (replicate 32 0) (data_to_sign (pad_firmware []) (unsigned_header 0 5)),
           FileWritten ''out.bin''])"
proof -
  let ?fs = "\<lparr>files = [''fw.bin'' \<mapsto> ([] :: byte list)], writable = (\<lambda>p. True)\<rparr>"
  let ?big = "\<lparr>files = [''fw.bin'' \<mapsto> replicate 65473 (0 :: byte)], writable = (\<lambda>p. True)\<rparr>"
  let ?k31 = "''00000000000000000000000000000000000000000000000000000000000000''"
  let ?k33 = "''000000000000000000000000000000000000000000000000000000000000000000''"
  let ?k32 = "''0000000000000000000000000000000000000000000000000000000000000000''"
  have f: "files ?fs ''fw.bin'' = Some []" by simp
  have g: "files ?big ''fw.bin'' = Some (replicate 65473 0)" by simp
  have big: "header_offset < length (replicate 65473 (0 :: byte))"
    by (simp add: header_offset_def)
  have ok: "length ([] :: byte list) \<le> header_offset \<and> in_u32 0 \<and> in_u32 5"
    by (simp add: in_u32_def)
  have s31: "fromhex ?k31 = Some (replicate 31 0) \<and> length (replicate 31 (0 :: byte)) \<noteq> 32"
    by (intro conjI fromhex_short_key) simp
  have s33: "fromhex ?k33 = Some (replicate 33 0) \<and> length (replicate 33 (0 :: byte)) \<noteq> 32"
    by (intro conjI fromhex_long_key) simp
  have s32: "fromhex ?k32 = Some (replicate 32 0) \<and> writable ?fs ''out.bin''"
    by (intro conjI fromhex_zero_key) simp
  from key_gate [OF g, where key_hex = "''0g''" and key = "[]" and version = 0 and now = 5 and output_path = "''out.bin''"] big
  have 0: "sign_firmware ?big 5 ''fw.bin'' ''0g'' 0 ''out.bin'' =
             Inl (PayloadTooLarge (length (replicate 65473 (0 :: byte))) header_offset
                    (length (replicate 65473 (0 :: byte)) - header_offset))"
    by blast
  from key_gate [OF f, where key_hex = ?k31 and key = "replicate 31 0" and version = 0 and now = 5 and output_path = "''out.bin''"] ok s31
  have 1: "sign_firmware ?fs 5 ''fw.bin'' ?k31 0 ''out.bin''
           = Inl (InvalidKeyLength (length (replicate 31 (0 :: byte)) * 8) (length ?k31))"
    and t1: "fst (sign_firmware_trace ?fs 5 ''fw.bin'' ?k31 0 ''out.bin'') = [FileRead ''fw.bin'']"
    by blast+
  from key_gate [OF f, where key_hex = ?k33 and key = "replicate 33 0" and version = 0 and now = 5 and output_path = "''out.bin''"] ok s33
  have 2: "sign_firmware ?fs 5 ''fw.bin'' ?k33 0 ''out.bin''
           = Inl (InvalidKeyLength (length (replicate 33 (0 :: byte)) * 8) (length ?k33))"
    by blast
  from key_gate [OF f, where key_hex = "''0g''" and key = "[]" and version = 0 and now = 5 and output_path = "''out.bin''"] ok fromhex_not_hex
  have 3: "sign_firmware ?fs 5 ''fw.bin'' ''0g'' 0 ''out.bin'' = Inl MalformedKeyEncoding"
    and t3: "fst (sign_firmware_trace ?fs 5 ''fw.bin'' ''0g'' 0 ''out.bin'') = [FileRead ''fw.bin'']"
    by blast+
  from key_gate [OF f, where key_hex = ?k32 and key = "replicate 32 0" and version = 0 and now = 5 and output_path = "''out.bin''"] ok s32
  have 4: "\<exists>image. sign_firmware ?fs 5 ''fw.bin'' ?k32 0 ''out.bin''
           = Inr (?fs\<lparr>files := (files ?fs)(''out.bin'' \<mapsto> image)\<rparr>) \<and>
           fst (sign_firmware_trace ?fs 5 ''fw.bin'' ?k32 0 ''out.bin'')
             = [FileRead ''fw.bin'',
                MacComputed (replicate 32 0) (data_to_sign (pad_firmware []) (unsigned_header 0 5)),
                FileWritten ''out.bin'']"
    by blast
  from 0 1 t1 2 3 t3 4 show ?thesis by (simp add: header_offset_def)
qed

text \<open>
  C5 as stated fails: with a payload of \<open>PAYLOAD_MAX + 1\<close> bytes and a key of 31 bytes the
  run ends in \<open>PayloadTooLarge\<close>, not in \<open>InvalidKeyLength\<close>; and with a payload of one
  byte and the same key, the firmware file has been read when the key is refused.
\<close>

theorem key_gate_counterexample:
  "fromhex ''00000000000000000000000000000000000000000000000000000000000000''
     = Some (replicate 31 0) \<and>
   length (replicate 31 (0 :: byte)) \<noteq> 32 \<and>
   sign_firmware \<lparr>files = [''fw.bin'' \<mapsto> replicate 65473 0], writable = (\<lambda>p. True)\<rparr>
       0 ''fw.bin'' ''00000000000000000000000000000000000000000000000000000000000000'' 1 ''out.bin''
     = Inl (PayloadTooLarge 65473 65472 1) \<and>
   sign_firmware \<lparr>files = [''fw.bin'' \<mapsto> replicate 65473 0], writable = (\<lambda>p. True)\<rparr>
       0 ''fw.bin'' ''00000000000000000000000000000000000000000000000000000000000000'' 1 ''out.bin''
     \<noteq> Inl (InvalidKeyLength 248 62) \<and>
   sign_firmware_trace \<lparr>files = [''fw.bin'' \<mapsto> [7]], writable = (\<lambda>p. True)\<rparr>
       0 ''fw.bin'' ''00000000000000000000000000000000000000000000000000000000000000'' 1 ''out.bin''
     = ([FileRead ''fw.bin''], Inl (InvalidKeyLength 248 62))"
proof -
  let ?fs = "\<lparr>files = [''fw.bin'' \<mapsto> replicate 65473 (0 :: byte)], writable = (\<lambda>p. True)\<rparr>"
  let ?small = "\<lparr>files = [''fw.bin'' \<mapsto> [7 :: byte]], writable = (\<lambda>p. True)\<rparr>"
  let ?k31 = "''00000000000000000000000000000000000000000000000000000000000000''"
  have f: "files ?fs ''fw.bin'' = Some (replicate 65473 0)" by simp
  have big: "header_offset < length (replicate 65473 (0 :: byte))"
    by (simp add: header_offset_def)
  have r: "sign_firmware ?fs 0 ''fw.bin'' ?k31 1 ''out.bin''
       = Inl (PayloadTooLarge 65473 65472 1)"
    using sign_firmware_too_large [OF f big] by (simp add: header_offset_def)
  have g: "files ?small ''fw.bin'' = Some [7]" by simp
  have l: "length [7 :: byte] \<le> header_offset" by (simp add: header_offset_def)
  have v: "in_u32 1" and n: "in_u32 0" by (simp_all add: in_u32_def)
  have k: "length (replicate 31 (0 :: byte)) \<noteq> 32" by simp
  have t: "sign_firmware_trace ?small 0 ''fw.bin'' ?k31 1 ''out.bin''
     = ([FileRead ''fw.bin''], Inl (InvalidKeyLength 248 62))"
    using sign_firmware_trace_bad_key_length [OF g l v n fromhex_short_key k] by simp
  show ?thesis
    unfolding r t by (intro conjI fromhex_short_key) simp_all
qed

text \<open>
  C6 (layout). The image of a successful run is the payload padded with zeros to
  \<open>PAYLOAD_MAX\<close> bytes, followed by the little-endian 32-bit words magic \<open>0xDEADBEEF\<close>,
  version, length \<open>PAYLOAD_MAX\<close>, entry point \<open>0x00010000\<close>, timestamp and three zero
  words at offsets \<open>PAYLOAD_MAX + 0, 4, ..., 28\<close>, followed by the eight signature words.
\<close>

theorem image_layout:
  assumes "files fs firmware_path = Some payload"
    and "length payload \<le> header_offset"
    and "in_u32 version" and "in_u32 now"
    and "fromhex key_hex = Some key" and "length key = 32"
    and "writable fs output_path"
  shows "\<exists>image.
           sign_firmware fs now firmware_path key_hex version output_path =
             Inr (fs\<lparr>files := (files fs)(output_path \<mapsto> image)\<rparr>) \<and>
           take header_offset image = payload @ replicate (header_offset - length payload) 0 \<and>
           u32_at image (header_offset + 0) = 0xDEADBEEF \<and>
           u32_at image (header_offset + 4) = version \<and>
           u32_at image (header_offset + 8) = int header_offset \<and>
           u32_at image (header_offset + 12) = 0x00010000 \<and>
           u32_at image (header_offset + 16) = now \<and>
           u32_at image (header_offset + 20) = 0 \<and>
           u32_at image (header_offset + 24) = 0 \<and>
           u32_at image (header_offset + 28) = 0 \<and>
           map (\<lambda>i. u32_at image (header_offset + 32 + 4 * i)) [0..<8] =
             digest_words (hmac_sha256 key (take (header_offset + 32) image)) \<and>
           length image = header_offset + 64"
proof -
  let ?img = "signed_image payload version now key"
  note len = assms(2) and v = assms(3) and t = assms(4)
  have run: "sign_firmware fs now firmware_path key_hex version output_path =
               Inr (fs\<lparr>files := (files fs)(output_path \<mapsto> ?img)\<rparr>)"
    using assms by (rule sign_firmware_success)
  have pay: "take header_offset ?img = payload @ replicate (header_offset - length payload) 0"
    using signed_image_parts(1) [OF len] by (simp add: pad_firmware_def)
  have word: "u32_at ?img (header_offset + 4 * k) = header_words version now ! k" if "k < 8" for k
    using len v t that by (rule signed_image_header_word)
  have w0: "u32_at ?img (header_offset + 0) = 0xDEADBEEF"
    using word [of 0] by (simp add: header_words_def)
  have w1: "u32_at ?img (header_offset + 4) = version"
    using word [of 1] by (simp add: header_words_def)
  have w2: "u32_at ?img (header_offset + 8) = int header_offset"
    using word [of 2] by (simp add: header_words_def)
  have w3: "u32_at ?img (header_offset + 12) = 0x00010000"
    using word [of 3] by (simp add: header_words_def)
  have w4: "u32_at ?img (header_offset + 16) = now"
    using word [of 4] by (simp add: header_words_def)
  have w5: "u32_at ?img (header_offset + 20) = 0"
    using word [of 5] by (simp add: header_words_def)
  have w6: "u32_at ?img (header_offset + 24) = 0"
    using word [of 6] by (simp add: header_words_def)
  have w7: "u32_at ?img (header_offset + 28) = 0"
    using word [of 7] by (simp add: header_words_def)
  have sig: "map (\<lambda>i. u32_at ?img (header_offset + 32 + 4 * i)) [0..<8] =
               digest_words (hmac_sha256 key (take (header_offset + 32) ?img))"
  proof -
    let ?mac = "hmac_sha256 key (pad_firmware payload @ unsigned_header version now)"
    have "map (\<lambda>i. u32_at ?img (header_offset + 32 + 4 * i)) [0..<8] = map (\<lambda>i. digest_words ?mac ! i) [0..<8]"
      by (rule map_cong) (simp_all add: signed_image_signature_word [OF len])
    also have "\<dots> = digest_words ?mac"
    proof -
      have l8: "length (digest_words ?mac) = 8" by (simp add: digest_words_def)
      show ?thesis using map_nth [of "digest_words ?mac"] unfolding l8 .
    qed
    finally show ?thesis by (simp add: signed_image_parts(2) [OF len])
  qed
  have size: "length ?img = header_offset + 64" using len by (rule length_signed_image)
  from run pay w0 w1 w2 w3 w4 w5 w6 w7 sig size show ?thesis by blast
qed

theorem image_layout_witness:
  "\<exists>image.
     sign_firmware \<lparr>files = [''firmware.bin'' \<mapsto> replicate 8 0], writable = (\<lambda>p. True)\<rparr> 1700000000 ''firmware.bin'' ''0101010101010101010101010101010101010101010101010101010101010101'' 1 ''firmware_signed.bin'' =
       Inr (\<lparr>files = [''firmware.bin'' \<mapsto> replicate 8 0], writable = (\<lambda>p. True)\<rparr>\<lparr>files := [''firmware.bin'' \<mapsto> replicate 8 0, ''firmware_signed.bin'' \<mapsto> image]\<rparr>) \<and>
     take header_offset image = replicate 8 0 @ replicate (header_offset - 8) 0 \<and>
     u32_at image (header_offset + 0) = 0xDEADBEEF \<and>
     u32_at image (header_offset + 4) = 1 \<and>
     u32_at image (header_offset + 8) = int header_offset \<and>
     u32_at image (header_offset + 12) = 0x00010000 \<and>
     u32_at image (header_offset + 16) = 1700000000 \<and>
     u32_at image (header_offset + 20) = 0 \<and>
     u32_at image (header_offset + 24) = 0 \<and>
     u32_at image (header_offset + 28) = 0 \<and>
     map (\<lambda>i. u32_at image (header_offset + 32 + 4 * i)) [0..<8] =
       digest_words (hmac_sha256 (replicate 32 1) (take (header_offset + 32) image)) \<and>
     length image = header_offset + 64"
proof -
  let ?fs = "\<lparr>files = [''firmware.bin'' \<mapsto> replicate 8 0], writable = (\<lambda>p. True)\<rparr>"
  have h1: "files ?fs ''firmware.bin'' = Some (replicate 8 0)" by simp
  have h2: "length (replicate 8 (0 :: byte)) \<le> header_offset" by (simp add: header_offset_def)
  have h3: "in_u32 1" and h4: "in_u32 1700000000" by (simp_all add: in_u32_def)
  have h6: "length (replicate 32 (1 :: byte)) = 32" by simp
  have h7: "writable ?fs ''firmware_signed.bin''" by simp
  from image_layout [OF h1 h2 h3 h4 fromhex_ones_key h6 h7]
  show ?thesis by simp
qed

text \<open>
  C7 (determinism). Two runs on the same payload, version, clock reading and key leave
  the same image, whatever the rest of the file system, the paths and the spelling of the
  key in hexadecimal; when the inputs are valid, that image is the one determined by
  these four values (the entry point is a constant of the tool).
\<close>

theorem signing_deterministic:
  assumes "files fs1 path1 = Some payload" and "files fs2 path2 = Some payload"
    and "fromhex key_hex1 = Some key" and "fromhex key_hex2 = Some key"
    and "writable fs1 out1 = writable fs2 out2"
  shows "written_image (sign_firmware fs1 now path1 key_hex1 version out1) out1 =
         written_image (sign_firmware fs2 now path2 key_hex2 version out2) out2 \<and>
         (length payload \<le> header_offset \<and> in_u32 version \<and> in_u32 now \<and> length key = 32 \<and>
          writable fs1 out1 \<longrightarrow>
            written_image (sign_firmware fs1 now path1 key_hex1 version out1) out1 =
              Some (signed_image payload version now key))"
proof
  show "written_image (sign_firmware fs1 now path1 key_hex1 version out1) out1 =
        written_image (sign_firmware fs2 now path2 key_hex2 version out2) out2"
    using assms
    by (simp add: sign_firmware_def written_image_def Let_def split: option.splits prod.splits)
  show "length payload \<le> header_offset \<and> in_u32 version \<and> in_u32 now \<and> length key = 32 \<and>
          writable fs1 out1 \<longrightarrow>
            written_image (sign_firmware fs1 now path1 key_hex1 version out1) out1 =
              Some (signed_image payload version now key)"
  proof
    assume ok: "length payload \<le> header_offset \<and> in_u32 version \<and> in_u32 now \<and> length key = 32 \<and>
          writable fs1 out1"
    then have "sign_firmware fs1 now path1 key_hex1 version out1 =
          Inr (fs1\<lparr>files := (files fs1)(out1 \<mapsto> signed_image payload version now key)\<rparr>)"
      using assms(1,3) by (intro sign_firmware_success) simp_all
    then show "written_image (sign_firmware fs1 now path1 key_hex1 version out1) out1 =
              Some (signed_image payload version now key)"
      by (simp add: written_image_def)
  qed
qed

theorem signing_deterministic_witness:
  "written_image
     (sign_firmware \<lparr>files = [''a.bin'' \<mapsto> [1, 2, 3]], writable = (\<lambda>p. True)\<rparr> 1700000000 ''a.bin''
        ''abababababababababababababababababababababababababababababababab'' 7 ''a.signed'')
     ''a.signed'' =
   written_image
     (sign_firmware \<lparr>files = [''b.bin'' \<mapsto> [1, 2, 3], ''c.bin'' \<mapsto> [9]], writable = (\<lambda>p. True)\<rparr>
        1700000000 ''b.bin''
        ''ABABABABABABABABABABABABABABABABABABABABABABABABABABABABABABABAB'' 7 ''b.signed'')
     ''b.signed'' \<and>
   written_image
     (sign_firmware \<lparr>files = [''a.bin'' \<mapsto> [1, 2, 3]], writable = (\<lambda>p. True)\<rparr> 1700000000 ''a.bin''
        ''abababababababababababababababababababababababababababababababab'' 7 ''a.signed'')
     ''a.signed'' = Some (signed_image [1, 2, 3] 7 1700000000 (replicate 32 0xAB))"
proof -
  let ?fs1 = "\<lparr>files = [''a.bin'' \<mapsto> [1, 2, 3 :: byte]], writable = (\<lambda>p. True)\<rparr>"
  let ?fs2 = "\<lparr>files = [''b.bin'' \<mapsto> [1, 2, 3 :: byte], ''c.bin'' \<mapsto> [9]], writable = (\<lambda>p. True)\<rparr>"
  have a: "files ?fs1 ''a.bin'' = Some [1, 2, 3]" by simp
  have b: "files ?fs2 ''b.bin'' = Some [1, 2, 3]" by simp
  have w: "writable ?fs1 ''a.signed'' = writable ?fs2 ''b.signed''" by simp
  have ok: "length [1, 2, 3 :: byte] \<le> header_offset \<and> in_u32 7 \<and> in_u32 1700000000 \<and>
      length (replicate 32 (0xAB :: byte)) = 32 \<and> writable ?fs1 ''a.signed''"
    by (simp add: header_offset_def in_u32_def)
  from signing_deterministic [OF a b fromhex_lower_key fromhex_upper_key w, of 1700000000 7] ok
  show ?thesis by blast
qed

text \<open>
  C8 (signature words). The digest is split into eight words by unpacking its
  consecutive groups of four bytes little-endian, each word is packed little-endian
  again and appended to the header, and packing gives back the group it came from: the
  32 signature bytes of the image are the HMAC-SHA256 digest, byte for byte.
\<close>

theorem signature_bytes_are_digest:
  assumes "files fs firmware_path = Some payload"
    and "length payload \<le> header_offset"
    and "in_u32 version" and "in_u32 now"
    and "fromhex key_hex = Some key" and "length key = 32"
    and "writable fs output_path"
  shows "\<exists>image mac.
           sign_firmware fs now firmware_path key_hex version output_path =
             Inr (fs\<lparr>files := (files fs)(output_path \<mapsto> image)\<rparr>) \<and>
           mac = hmac_sha256 key (data_to_sign (pad_firmware payload) (unsigned_header version now)) \<and>
           length mac = 32 \<and>
           append_signature mac [0..<8] ([], unsigned_header version now) =
             Some (digest_words mac, unsigned_header version now @ mac) \<and>
           map pack_u32 (digest_words mac) =
             map (\<lambda>i. Some (slice mac (4 * i) (4 * i + 4))) [0..<8] \<and>
           drop (header_offset + 32) image = mac \<and>
           length image = header_offset + 32 + length mac"
proof -
  let ?img = "signed_image payload version now key"
  let ?mac = "hmac_sha256 key (data_to_sign (pad_firmware payload) (unsigned_header version now))"
  have run: "sign_firmware fs now firmware_path key_hex version output_path =
               Inr (fs\<lparr>files := (files fs)(output_path \<mapsto> ?img)\<rparr>)"
    using assms by (rule sign_firmware_success)
  have l: "length ?mac = 32" by (rule length_hmac_sha256)
  have loop: "append_signature ?mac [0..<8] ([], unsigned_header version now) =
             Some (digest_words ?mac, unsigned_header version now @ ?mac)"
    using l by (rule append_signature_mac)
  have repack: "map pack_u32 (digest_words ?mac) =
             map (\<lambda>i. Some (slice ?mac (4 * i) (4 * i + 4))) [0..<8]"
    using l by (rule pack_digest_words)
  have sig: "drop (header_offset + 32) ?img = ?mac"
    using signed_image_parts(3) [OF assms(2)] by (simp add: data_to_sign_def)
  have size: "length ?img = header_offset + 32 + length ?mac"
    using length_signed_image [OF assms(2)] l by simp
  from run l loop repack sig size show ?thesis by blast
qed

theorem signature_bytes_are_digest_witness:
  "\<exists>image mac.
     sign_firmware \<lparr>files = [''fw.bin'' \<mapsto> [0x13, 0x05]], writable = (\<lambda>p. True)\<rparr> 42 ''fw.bin''
         ''0101010101010101010101010101010101010101010101010101010101010101'' 3 ''fw.signed'' =
       Inr (\<lparr>files = [''fw.bin'' \<mapsto> [0x13, 0x05]], writable = (\<lambda>p. True)\<rparr>
              \<lparr>files := [''fw.bin'' \<mapsto> [0x13, 0x05], ''fw.signed'' \<mapsto> image]\<rparr>) \<and>
     mac = hmac_sha256 (replicate 32 1) (data_to_sign (pad_firmware [0x13, 0x05]) (unsigned_header 3 42)) \<and>
     length mac = 32 \<and>
     append_signature mac [0..<8] ([], unsigned_header 3 42) =
       Some (digest_words mac, unsigned_header 3 42 @ mac) \<and>
     map pack_u32 (digest_words mac) = map (\<lambda>i. Some (slice mac (4 * i) (4 * i + 4))) [0..<8] \<and>
     drop (header_offset + 32) image = mac \<and>
     length image = header_offset + 32 + length mac"
proof -
  let ?fs = "\<lparr>files = [''fw.bin'' \<mapsto> [0x13, 0x05 :: byte]], writable = (\<lambda>p. True)\<rparr>"
  have h1: "files ?fs ''fw.bin'' = Some [0x13, 0x05]" by simp
  have h2: "length [0x13, 0x05 :: byte] \<le> header_offset" by (simp add: header_offset_def)
  have h3: "in_u32 3" and h4: "in_u32 42" by (simp_all add: in_u32_def)
  have h6: "length (replicate 32 (1 :: byte)) = 32" by simp
  have h7: "writable ?fs ''fw.signed''" by simp
  from signature_bytes_are_digest [OF h1 h2 h3 h4 fromhex_ones_key h6 h7]
  show ?thesis by simp
qed

section \<open>Claims about the conversion tools\<close>

text \<open>
  C9. For every input buffer, bin2hex without \<open>num_words\<close> and make_imem emit one line
  for each 32-bit word of the buffer padded with zeros to a multiple of four bytes; the
  value on line \<open>i\<close> is the little-endian value of bytes \<open>4i..4i+3\<close> of the padded
  buffer, printed by bin2hex as eight hexadecimal digits and by make_imem as the
  assignment \<open>memory[i] = 32'h...;\<close>.
\<close>

theorem conversion_tools_words:
  "bin2hex buf None =
     Some (map (\<lambda>i. fmt_08x (le_word (pad4 buf) i)) [0..<length (pad4 buf) div 4]) \<and>
   make_imem buf =
     map (\<lambda>i. memory_line i (le_word (pad4 buf) i)) [0..<length (pad4 buf) div 4] \<and>
   pad4 buf = buf @ replicate (length (pad4 buf) - length buf) 0 \<and>
   length (pad4 buf) mod 4 = 0 \<and> length (pad4 buf) < length buf + 4 \<and>
   map length (map (\<lambda>i. fmt_08x (le_word (pad4 buf) i)) [0..<length (pad4 buf) div 4]) =
     replicate (length (pad4 buf) div 4) 8"
proof (intro conjI)
  show "bin2hex buf None =
          Some (map (\<lambda>i. fmt_08x (le_word (pad4 buf) i)) [0..<length (pad4 buf) div 4])"
    by (simp add: bin2hex_lines Let_def)
  show "make_imem buf =
          map (\<lambda>i. memory_line i (le_word (pad4 buf) i)) [0..<length (pad4 buf) div 4]"
    by (rule make_imem_lines)
  show "pad4 buf = buf @ replicate (length (pad4 buf) - length buf) 0"
    by (rule pad4_is_padding)
  show "length (pad4 buf) mod 4 = 0" by (rule length_pad4)
  show "length (pad4 buf) < length buf + 4" by (rule pad4_short)
  show "map length (map (\<lambda>i. fmt_08x (le_word (pad4 buf) i)) [0..<length (pad4 buf) div 4]) =
          replicate (length (pad4 buf) div 4) 8"
  proof -
    have "length (fmt_08x (le_word (pad4 buf) i)) = 8" for i
      by (rule length_fmt_08x) (rule le_word_range)+
    then show ?thesis by (simp add: comp_def map_replicate_const)
  qed
qed

theorem conversion_tools_words_witness:
  "bin2hex [0xEF, 0xBE, 0xAD, 0xDE, 0x13] None = Some [''deadbeef'', ''00000013''] \<and>
   make_imem [0xEF, 0xBE, 0xAD, 0xDE, 0x13] =
     [''    memory[0] = 32'' @ [CHR 0x27] @ ''hdeadbeef;'',
      ''    memory[1] = 32'' @ [CHR 0x27] @ ''h00000013;'']"
proof -
  have p: "pad4 [0xEF, 0xBE, 0xAD, 0xDE, 0x13] = [0xEF, 0xBE, 0xAD, 0xDE, 0x13, 0, 0, 0]"
    by code_simp
  have u: "[0..<2] = [0, Suc 0]" by code_simp
  have w: "le_word [0xEF, 0xBE, 0xAD, 0xDE, 0x13, 0, 0, 0] 0 = 0xDEADBEEF"
          "le_word [0xEF, 0xBE, 0xAD, 0xDE, 0x13, 0, 0, 0] (Suc 0) = 0x13"
    by (simp_all add: le_word_def)
  have h: "fmt_08x 0xDEADBEEF = ''deadbeef''" "fmt_08x 0x13 = ''00000013''"
    by (simp_all add: fmt_08x_def zero_fill_def hex_str.simps hex_digit_def replicate_numeral_unfold)
  have d: "dec_str 0 = ''0''" "dec_str (Suc 0) = ''1''"
    by (simp_all add: dec_str.simps dec_digit_def)
  from conversion_tools_words [of "[0xEF, 0xBE, 0xAD, 0xDE, 0x13]"]
  show ?thesis
    unfolding p by (simp add: u w h memory_line_def d)
qed

text \<open>
  C10, as the code has it. With an explicit \<open>num_words\<close> that is not negative, bin2hex
  writes exactly \<open>num_words\<close> lines: the first \<open>num_words\<close> words of the padded input
  when the input has more, the other words being dropped, and all the words of the input
  followed by lines \<open>00000000\<close> when it has fewer. With a negative \<open>num_words\<close>, which
  the command line admits, it writes no line.
\<close>

theorem bin2hex_num_words:
  "(0 \<le> n \<longrightarrow>
      (\<exists>ls. bin2hex buf (Some n) = Some ls \<and> int (length ls) = n \<and>
         ls = map (\<lambda>i. fmt_08x (le_word (pad4 buf) i))
                [0..<min (nat n) (length (pad4 buf) div 4)] @
              replicate (nat n - length (pad4 buf) div 4) ''00000000'')) \<and>
   (n < 0 \<longrightarrow> bin2hex buf (Some n) = Some [])"
proof (intro conjI impI)
  let ?m = "length (pad4 buf) div 4"
  let ?ls = "map (\<lambda>i. fmt_08x (le_word (pad4 buf) i)) [0..<min (nat n) ?m] @
                replicate (nat n - ?m) ''00000000''"
  have run: "bin2hex buf (Some n) = Some ?ls"
    by (simp add: bin2hex_lines Let_def map_replicate_const min.commute)
  {
    assume "0 \<le> n"
    then have "int (length ?ls) = n" by simp
    with run show "\<exists>ls. bin2hex buf (Some n) = Some ls \<and> int (length ls) = n \<and>
         ls = map (\<lambda>i. fmt_08x (le_word (pad4 buf) i))
                [0..<min (nat n) (length (pad4 buf) div 4)] @
              replicate (nat n - length (pad4 buf) div 4) ''00000000''"
      by blast
  }
  {
    assume "n < 0"
    then have "nat n = 0" by simp
    then show "bin2hex buf (Some n) = Some []" using run by simp
  }
qed

theorem bin2hex_num_words_witness:
  "bin2hex [1, 2, 3, 4, 5, 6, 7, 8, 9] (Some 2) = Some [''04030201'', ''08070605''] \<and>
   bin2hex [1, 2, 3, 4, 5, 6, 7, 8, 9] (Some 5) =
     Some [''04030201'', ''08070605'', ''00000009'', ''00000000'', ''00000000''] \<and>
   bin2hex [1, 2, 3, 4, 5, 6, 7, 8, 9] (Some (- 3)) = Some []"
proof -
  let ?buf = "[1, 2, 3, 4, 5, 6, 7, 8, 9] :: byte list"
  have p: "pad4 ?buf = [1, 2, 3, 4, 5, 6, 7, 8, 9, 0, 0, 0]"
    by code_simp
  have w: "le_word [1, 2, 3, 4, 5, 6, 7, 8, 9, 0, 0, 0] 0 = 0x04030201"
          "le_word [1, 2, 3, 4, 5, 6, 7, 8, 9, 0, 0, 0] (Suc 0) = 0x08070605"
          "le_word [1, 2, 3, 4, 5, 6, 7, 8, 9, 0, 0, 0] 2 = 0x00000009"
    by (simp_all add: le_word_def)
  have h: "fmt_08x 0x04030201 = ''04030201''" "fmt_08x 0x08070605 = ''08070605''"
          "fmt_08x 0x00000009 = ''00000009''"
    by (simp_all add: fmt_08x_def zero_fill_def hex_str.simps hex_digit_def replicate_numeral_unfold)
  have u: "[0..<2] = [0, Suc 0]" "[0..<3] = [0, Suc 0, 2]" by code_simp+
  from bin2hex_num_words [of 2 ?buf]
  have 1: "bin2hex ?buf (Some 2) = Some [''04030201'', ''08070605'']"
    unfolding p by (simp add: u w h)
  from bin2hex_num_words [of 5 ?buf]
  have 2: "bin2hex ?buf (Some 5) =
     Some [''04030201'', ''08070605'', ''00000009'', ''00000000'', ''00000000'']"
    unfolding p by (simp add: u w h replicate_numeral_unfold)
  from bin2hex_num_words [of "- 3" ?buf]
  have 3: "bin2hex ?buf (Some (- 3)) = Some []" by simp
  from 1 2 3 show ?thesis by simp
qed

text \<open>
  C10 as stated fails for a negative \<open>num_words\<close>: with \<open>num_words = -1\<close> the output
  has no line, and no output has \<open>-1\<close> lines.
\<close>

theorem bin2hex_negative_num_words_counterexample:
  "bin2hex [1, 2, 3, 4] (Some (- 1)) = Some [] \<and> int (length ([] :: string list)) \<noteq> - 1"
proof -
  have "bin2hex [1, 2, 3, 4] (Some (- 1)) = Some []"
    by (simp add: bin2hex_lines Let_def)
  then show ?thesis by simp
qed

end
